theory Spec2Isabelle
  imports Main
begin

section \<open>Connect Four: the data of \<open>ConnectFourGame.ts\<close>\<close>

text \<open>
  The class \<open>ConnectFourGame\<close> keeps a state object (\<open>ConnectFourGameState\<close>), a reference to
  the prior game, a 6 x 7 board of one-character strings and, inherited from \<open>Game\<close>, the list
  of players in the game. A player is used by the class only through its \<open>id\<close>, a string, so a
  player is modelled by that string. Optional fields (\<open>red?\<close>, \<open>yellow?\<close>, \<open>winner?\<close>,
  \<open>redReady?\<close>, \<open>yellowReady?\<close>) are options, \<open>None\<close> being \<open>undefined\<close>.
\<close>

datatype ConnectFourColor = Red | Yellow

datatype GameStatus = WAITING_FOR_PLAYERS | WAITING_TO_START | IN_PROGRESS | OVER

text \<open>The messages an \<open>InvalidParametersError\<close> is thrown with.\<close>

datatype error =
    PLAYER_ALREADY_IN_GAME_MESSAGE
  | GAME_FULL_MESSAGE
  | PLAYER_NOT_IN_GAME_MESSAGE
  | GAME_NOT_STARTABLE_MESSAGE
  | MOVE_NOT_YOUR_TURN_MESSAGE
  | BOARD_POSITION_NOT_VALID_MESSAGE
  | GAME_NOT_IN_PROGRESS_MESSAGE

record ConnectFourMove =
  gamePiece :: ConnectFourColor
  col :: int
  row :: int

record GameMove =
  playerID :: string
  gameID :: string
  move :: ConnectFourMove

record ConnectFourGameState =
  moves :: "ConnectFourMove list"
  status :: GameStatus
  firstPlayer :: ConnectFourColor
  red :: "string option"
  yellow :: "string option"
  redReady :: "bool option"
  yellowReady :: "bool option"
  winner :: "string option"

text \<open>
  Of the prior game the class reads \<open>_lastGame.state\<close> only (its seats and its first player),
  so the field \<open>lastGame\<close> holds that state, \<open>None\<close> when there is no prior game.
\<close>

record ConnectFourGame =
  state :: ConnectFourGameState
  lastGame :: "ConnectFourGameState option"
  board :: "string list list"
  players :: "string list"

text \<open>
  An operation either returns or throws; the object it was called on is mutated in place
  either way. Its outcome is the thrown message (\<open>None\<close> when it returned) and the object as
  the call left it.
\<close>

type_synonym outcome = "error option \<times> ConnectFourGame"

definition emptyBoard :: "string list list" where
  "emptyBoard = replicate 6 (replicate 7 ''_'')"

text \<open>The constructor \<open>new ConnectFourGame(priorGame)\<close>.\<close>

definition newConnectFourGame :: "ConnectFourGameState option \<Rightarrow> ConnectFourGame" where
  "newConnectFourGame priorGame =
     \<lparr> state = \<lparr> moves = [], status = WAITING_FOR_PLAYERS, firstPlayer = Red,
                 red = None, yellow = None, redReady = None, yellowReady = None,
                 winner = None \<rparr>,
       lastGame = priorGame,
       board = emptyBoard,
       players = [] \<rparr>"

text \<open>JavaScript truthiness of an optional string and of an optional boolean.\<close>

definition truthy :: "string option \<Rightarrow> bool" where
  "truthy x = (case x of None \<Rightarrow> False | Some s \<Rightarrow> s \<noteq> [])"

definition truthyFlag :: "bool option \<Rightarrow> bool" where
  "truthyFlag x = (x = Some True)"

section \<open>startGame\<close>

text \<open>
  The block of lines 73-88 of \<open>startGame\<close>, which sets the first player. It runs once the
  two guards of the method have passed, and reads the prior game and the players in the game.
\<close>

definition startFirstPlayer ::
  "ConnectFourGame \<Rightarrow> ConnectFourGameState \<Rightarrow> string \<Rightarrow> ConnectFourGameState" where
  "startFirstPlayer g s player =
     (if red s = Some player \<or> yellow s = Some player then
        (case lastGame g of
           Some lg \<Rightarrow>
             if list_ex (\<lambda>p. Some p = red lg \<or> Some p = yellow lg) (players g)
             then (if firstPlayer lg = Red then s\<lparr>firstPlayer := Yellow\<rparr>
                   else s\<lparr>firstPlayer := Red\<rparr>)
             else s
         | None \<Rightarrow> s\<lparr>firstPlayer := Red\<rparr>)
      else s)"

text \<open>Lines 90-98: the ready flag of the caller, and the start once both flags are set.\<close>

definition startReady :: "ConnectFourGameState \<Rightarrow> string \<Rightarrow> ConnectFourGameState" where
  "startReady s player =
     (let s' = (if red s = Some player then s\<lparr>redReady := Some True\<rparr>
                else if yellow s = Some player then s\<lparr>yellowReady := Some True\<rparr>
                else s)
      in if truthyFlag (yellowReady s') \<and> truthyFlag (redReady s')
         then s'\<lparr>status := IN_PROGRESS\<rparr> else s')"

definition startGame :: "ConnectFourGame \<Rightarrow> string \<Rightarrow> outcome" where
  "startGame g player =
     (if status (state g) \<noteq> WAITING_TO_START then (Some GAME_NOT_STARTABLE_MESSAGE, g)
      else if red (state g) \<noteq> Some player \<and> yellow (state g) \<noteq> Some player
        then (Some PLAYER_NOT_IN_GAME_MESSAGE, g)
      else (None, g\<lparr>state := startReady (startFirstPlayer g (state g) player) player\<rparr>))"

section \<open>\<open>_join\<close>\<close>

text \<open>Lines 124-153 of \<open>_join\<close>: the seat the joining player gets.\<close>

definition joinSeat ::
  "ConnectFourGameState option \<Rightarrow> ConnectFourGameState \<Rightarrow> string \<Rightarrow> ConnectFourGameState" where
  "joinSeat priorState s player =
     (case priorState of
        Some lg \<Rightarrow>
          if red s = None \<and> red lg = Some player then s\<lparr>red := Some player\<rparr>
          else if yellow s = None \<and> yellow lg = Some player then s\<lparr>yellow := Some player\<rparr>
          else if red s \<noteq> None \<and> red lg = Some player then s\<lparr>yellow := Some player\<rparr>
          else if yellow s \<noteq> None \<and> yellow lg = Some player then s\<lparr>red := Some player\<rparr>
          else if red s = None then s\<lparr>red := Some player\<rparr>
          else s\<lparr>yellow := Some player\<rparr>
      | None \<Rightarrow>
          if red s = None then s\<lparr>red := Some player\<rparr>
          else s\<lparr>yellow := Some player\<rparr>)"

text \<open>Lines 155-157: with both seats taken the game waits to start.\<close>

definition joinStatus :: "ConnectFourGameState \<Rightarrow> ConnectFourGameState" where
  "joinStatus s =
     (if red s \<noteq> None \<and> yellow s \<noteq> None then s\<lparr>status := WAITING_TO_START\<rparr> else s)"

definition join :: "ConnectFourGame \<Rightarrow> string \<Rightarrow> outcome" where
  "join g player =
     (if red (state g) = Some player \<or> yellow (state g) = Some player
        then (Some PLAYER_ALREADY_IN_GAME_MESSAGE, g)
      else if truthy (red (state g)) \<and> truthy (yellow (state g))
              \<and> red (state g) \<noteq> yellow (state g)
        then (Some GAME_FULL_MESSAGE, g)
      else (None, g\<lparr>state := joinStatus (joinSeat (lastGame g) (state g) player)\<rparr>))"

section \<open>\<open>_leave\<close> and \<open>_createNewGame\<close>\<close>

definition createNewGame :: "ConnectFourGame \<Rightarrow> ConnectFourGame" where
  "createNewGame g = newConnectFourGame None"

text \<open>
  \<open>_leave\<close> is a sequence of blocks, each reading the state the blocks before it left.
  Lines 181-187: a player leaves a game in progress.
\<close>

definition leaveInProgress :: "ConnectFourGameState \<Rightarrow> string \<Rightarrow> ConnectFourGameState" where
  "leaveInProgress s player =
     (if red s = Some player \<and> status s = IN_PROGRESS
        then s\<lparr>winner := yellow s, status := OVER\<rparr>
      else if yellow s = Some player \<and> status s = IN_PROGRESS
        then s\<lparr>winner := red s, status := OVER\<rparr>
      else s)"

text \<open>Lines 202-214: a player leaves a game that waits to start.\<close>

definition leaveWaitingToStart :: "ConnectFourGameState \<Rightarrow> string \<Rightarrow> ConnectFourGameState" where
  "leaveWaitingToStart s player =
     (if red s = Some player then
        (if status s = WAITING_TO_START
           then s\<lparr>red := None, redReady := Some False, status := WAITING_FOR_PLAYERS\<rparr>
         else s)
      else if yellow s = Some player then
        (if status s = WAITING_TO_START
           then s\<lparr>yellow := None, yellowReady := Some False, status := WAITING_FOR_PLAYERS\<rparr>
         else s)
      else s)"

text \<open>Lines 220-228: the branch that assigns the first player.\<close>

definition leaveFirstPlayer :: "ConnectFourGameState \<Rightarrow> string \<Rightarrow> ConnectFourGameState" where
  "leaveFirstPlayer s player =
     (if red s = Some player \<and> status s = WAITING_TO_START then
        (if status s = WAITING_TO_START then
           (if truthy (red s) \<and> truthy (yellow s) then
              (if yellow s = Some player then s\<lparr>firstPlayer := Red\<rparr> else s)
            else s)
         else s)
      else s)"

text \<open>Lines 233-245: a player leaves a game that waits for players.\<close>

definition leaveWaitingForPlayers :: "ConnectFourGameState \<Rightarrow> string \<Rightarrow> ConnectFourGameState" where
  "leaveWaitingForPlayers s player =
     (if red s = Some player then
        (if status s = WAITING_FOR_PLAYERS
           then s\<lparr>red := None, redReady := Some False, status := WAITING_FOR_PLAYERS\<rparr>
         else s)
      else if yellow s = Some player then
        (if status s = WAITING_FOR_PLAYERS
           then s\<lparr>yellow := None, yellowReady := Some False, status := WAITING_FOR_PLAYERS\<rparr>
         else s)
      else s)"

text \<open>
  The method: the guard of lines 175-177, the first block, the early return of lines 192-196,
  the other three blocks, and the call of \<open>_createNewGame\<close> of lines 247-249, the only
  \<open>new ConnectFourGame\<close> of the method, whose result is dropped. The second component of the
  result lists the games constructed during the call.
\<close>

definition leave :: "ConnectFourGame \<Rightarrow> string \<Rightarrow> outcome \<times> ConnectFourGame list" where
  "leave g player =
     (if red (state g) \<noteq> Some player \<and> yellow (state g) \<noteq> Some player
        then ((Some PLAYER_NOT_IN_GAME_MESSAGE, g), [])
      else
        let s1 = leaveInProgress (state g) player in
        if (red s1 = Some player \<or> yellow s1 = Some player) \<and> status s1 = OVER
          then ((None, g\<lparr>state := s1\<rparr>), [])
        else
          let s4 = leaveWaitingForPlayers
                     (leaveFirstPlayer (leaveWaitingToStart s1 player) player) player;
              g4 = g\<lparr>state := s4\<rparr>
          in ((None, g4), (if status s4 = OVER then [createNewGame g4] else [])))"

section \<open>The turn check\<close>

definition getOtherPlayerColor :: "ConnectFourColor \<Rightarrow> ConnectFourColor" where
  "getOtherPlayerColor playerColor = (if playerColor = Red then Yellow else Red)"

definition isTurn :: "ConnectFourGame \<Rightarrow> GameMove \<Rightarrow> bool" where
  "isTurn g mv =
     (let currentPlayerIndex = length (moves (state g)) mod 2;
          currentPlayer = (if currentPlayerIndex = 0 then firstPlayer (state g)
                           else getOtherPlayerColor (firstPlayer (state g)))
      in if currentPlayer = Red \<and> Some (playerID mv) = red (state g) then True
         else if currentPlayer = Yellow \<and> Some (playerID mv) = yellow (state g) then True
         else False)"

text \<open>The occupant of the seat of a colour.\<close>

definition seatOf :: "ConnectFourGameState \<Rightarrow> ConnectFourColor \<Rightarrow> string option" where
  "seatOf s c = (case c of Red \<Rightarrow> red s | Yellow \<Rightarrow> yellow s)"

section \<open>The board\<close>

text \<open>
  A cell is one of the strings \<open>_\<close>, \<open>R\<close> and \<open>Y\<close>. \<open>board[row]?.[col]\<close> reads a cell and
  yields \<open>undefined\<close> outside the arrays.
\<close>

definition cellAt :: "string list list \<Rightarrow> int \<Rightarrow> int \<Rightarrow> string option" where
  "cellAt b r c =
     (if 0 \<le> r \<and> r < int (length b) \<and> 0 \<le> c \<and> c < int (length (b ! nat r))
      then Some (b ! nat r ! nat c) else None)"

text \<open>
  The write \<open>this._board[row][col] = v\<close>. The row and column of a \<open>ConnectFourMove\<close> are of
  the index types \<open>ConnectFourRowIndex\<close> (0 to 5) and \<open>ConnectFourColIndex\<close> (0 to 6); the
  model has them as integers, as the range check of \<open>_checkValidBoardPosition\<close> reads them,
  and writes cells of the grid only. Every position the game logs has passed that range
  check (\<open>reachable_inGrid\<close> below), so no other write occurs.
\<close>

definition setCell :: "string list list \<Rightarrow> int \<Rightarrow> int \<Rightarrow> string \<Rightarrow> string list list" where
  "setCell b r c v =
     (if 0 \<le> r \<and> r < 6 \<and> 0 \<le> c \<and> c < 7 then b[nat r := (b ! nat r)[nat c := v]] else b)"

definition pieceOf :: "ConnectFourColor \<Rightarrow> string" where
  "pieceOf gp = (if gp = Red then ''R'' else ''Y'')"

definition updateBoard :: "string list list \<Rightarrow> ConnectFourMove list \<Rightarrow> string list list" where
  "updateBoard b ms = fold (\<lambda>m b'. setCell b' (row m) (col m) (pieceOf (gamePiece m))) ms b"

section \<open>\<open>_checkValidBoardPosition\<close> and \<open>_checkValidMove\<close>\<close>

definition checkValidBoardPosition :: "ConnectFourGame \<Rightarrow> GameMove \<Rightarrow> bool" where
  "checkValidBoardPosition g mv =
     (let r = row (move mv); c = col (move mv) in
      if c < 0 \<or> c \<ge> 7 \<or> r < 0 \<or> r \<ge> 6 then False
      else if board g ! nat r ! nat c \<noteq> ''_'' then False
      else if r \<noteq> 5 \<and> board g ! nat (r + 1) ! nat c = ''_'' then False
      else True)"

text \<open>\<open>_checkValidMove\<close> only reads the game: its result is the message it throws, if any.\<close>

definition checkValidMove :: "ConnectFourGame \<Rightarrow> GameMove \<Rightarrow> error option" where
  "checkValidMove g mv =
     (let s = state g in
      if status s \<noteq> IN_PROGRESS then Some GAME_NOT_IN_PROGRESS_MESSAGE
      else if red s \<noteq> Some (playerID mv) \<and> yellow s \<noteq> Some (playerID mv)
        then Some PLAYER_NOT_IN_GAME_MESSAGE
      else if status s = IN_PROGRESS \<and> truthy (red s) \<and> \<not> isTurn g mv
        then Some MOVE_NOT_YOUR_TURN_MESSAGE
      else if status s = IN_PROGRESS \<and> truthy (yellow s) \<and> \<not> isTurn g mv
        then Some MOVE_NOT_YOUR_TURN_MESSAGE
      else if \<not> isTurn g mv then Some MOVE_NOT_YOUR_TURN_MESSAGE
      else if \<not> checkValidBoardPosition g mv then Some BOARD_POSITION_NOT_VALID_MESSAGE
      else None)"

section \<open>\<open>_determineWinner\<close>\<close>

text \<open>
  The inner loop of the horizontal and of the vertical check walks along a line with a
  counter that starts at 1 on the first cell: \<open>countRun prev counter xs\<close> is the loop at the
  cells \<open>xs\<close> that remain, \<open>prev\<close> being the cell before them.
\<close>

fun countRun :: "string \<Rightarrow> nat \<Rightarrow> string list \<Rightarrow> bool" where
  "countRun prev counter [] = False"
| "countRun prev counter (x # xs) =
     (let counter' = (if x \<noteq> ''_'' \<and> x = prev then counter + 1 else 1)
      in if counter' = 4 then True else countRun x counter' xs)"

definition lineHasFour :: "string list \<Rightarrow> bool" where
  "lineHasFour cells = (case cells of [] \<Rightarrow> False | x # xs \<Rightarrow> countRun x 1 xs)"

definition horizontalWin :: "string list list \<Rightarrow> bool" where
  "horizontalWin b = list_ex lineHasFour b"

definition verticalWin :: "string list list \<Rightarrow> bool" where
  "verticalWin b = list_ex (\<lambda>c. lineHasFour (map (\<lambda>cells. cells ! c) b)) [0..<7]"

definition diagonalWin :: "string list list \<Rightarrow> int \<Rightarrow> bool" where
  "diagonalWin b dr =
     list_ex (\<lambda>r. list_ex (\<lambda>c.
        b ! r ! c \<noteq> ''_'' \<and>
        (let gp = b ! r ! c in
           cellAt b (int r) (int c) = Some gp \<and>
           cellAt b (int r + dr) (int c + 1) = Some gp \<and>
           cellAt b (int r + 2 * dr) (int c + 2) = Some gp \<and>
           cellAt b (int r + 3 * dr) (int c + 3) = Some gp)) [0..<7]) [0..<6]"

definition boardFullCheck :: "ConnectFourGame \<Rightarrow> bool" where
  "boardFullCheck g =
     list_ex (\<lambda>r. list_ex (\<lambda>c.
        board g ! r ! c \<noteq> ''_'' \<and> length (moves (state g)) = 42) [0..<7]) [0..<6]"

text \<open>
  \<open>diagonalWin b 1\<close> is the scan from top left to bottom right, \<open>diagonalWin b (- 1)\<close> the one
  from bottom left to top right. Each of the four scans ends the method at its first hit,
  with the same assignments.
\<close>

definition determineWinner :: "ConnectFourGame \<Rightarrow> ConnectFourMove \<Rightarrow> ConnectFourGame" where
  "determineWinner g m =
     (let s = state g;
          w = (if gamePiece m = Red then red s else yellow s)
      in if horizontalWin (board g) then g\<lparr>state := s\<lparr>status := OVER, winner := w\<rparr>\<rparr>
         else if verticalWin (board g) then g\<lparr>state := s\<lparr>status := OVER, winner := w\<rparr>\<rparr>
         else if diagonalWin (board g) 1 then g\<lparr>state := s\<lparr>winner := w, status := OVER\<rparr>\<rparr>
         else if diagonalWin (board g) (- 1)
           then g\<lparr>state := s\<lparr>winner := w, status := OVER\<rparr>\<rparr>
         else if boardFullCheck g then g\<lparr>state := s\<lparr>status := OVER, winner := None\<rparr>\<rparr>
         else g)"

section \<open>applyMove\<close>

definition applyMove :: "ConnectFourGame \<Rightarrow> GameMove \<Rightarrow> outcome" where
  "applyMove g mv =
     (case checkValidMove g mv of
        Some e \<Rightarrow> (Some e, g)
      | None \<Rightarrow>
          let g1 = g\<lparr>state := (state g)\<lparr>moves := moves (state g) @ [move mv]\<rparr>\<rparr>;
              g2 = g1\<lparr>board := updateBoard (board g1) (moves (state g1))\<rparr>
          in (None, determineWinner g2 (move mv)))"

section \<open>The players of a game\<close>

text \<open>
  Modelled from the spec: the class \<open>Game\<close>, whose methods \<open>join\<close> and \<open>leave\<close> call \<open>_join\<close>
  and \<open>_leave\<close> and keep the list \<open>_players\<close> that \<open>startGame\<close> reads, is not among the sources.
  The specification names it as the wrapper that tracks the occupants of a game (section 1)
  and takes the players that \<open>startGame\<close> asks about to be the seated ones (section 4.5):
  \<open>join\<close> adds the player to the list once \<open>_join\<close> has returned. A call that throws
  changes nothing.
\<close>

definition Game_join :: "ConnectFourGame \<Rightarrow> string \<Rightarrow> outcome" where
  "Game_join g player =
     (case join g player of
        (Some e, g') \<Rightarrow> (Some e, g')
      | (None, g') \<Rightarrow> (None, g'\<lparr>players := players g' @ [player]\<rparr>))"

text \<open>
  Modelled from the spec: \<open>leave\<close> of the class \<open>Game\<close>, which is not among the sources
  either; it drops the player from the list once \<open>_leave\<close> has returned.
\<close>

definition Game_leave :: "ConnectFourGame \<Rightarrow> string \<Rightarrow> outcome" where
  "Game_leave g player =
     (case fst (leave g player) of
        (Some e, g') \<Rightarrow> (Some e, g')
      | (None, g') \<Rightarrow> (None, g'\<lparr>players := filter (\<lambda>p. p \<noteq> player) (players g')\<rparr>))"

section \<open>The rounds a game can be in\<close>

text \<open>
  The games that a constructor call and any sequence of calls of the four operations
  produce, whether a call returns or throws, when the players who join have their
  identities in \<open>ids\<close>. The list of players in the game is kept by the methods \<open>join\<close> and
  \<open>leave\<close> of the class \<open>Game\<close>, around \<open>_join\<close> and \<open>_leave\<close>; it may hold anything here.
\<close>

inductive reachable :: "string set \<Rightarrow> ConnectFourGame \<Rightarrow> bool" for ids :: "string set" where
  reach_new: "reachable ids (newConnectFourGame priorGame)"
| reach_join: "reachable ids g \<Longrightarrow> player \<in> ids \<Longrightarrow> reachable ids (snd (join g player))"
| reach_startGame: "reachable ids g \<Longrightarrow> reachable ids (snd (startGame g player))"
| reach_applyMove: "reachable ids g \<Longrightarrow> reachable ids (snd (applyMove g mv))"
| reach_leave: "reachable ids g \<Longrightarrow> reachable ids (snd (fst (leave g player)))"
| reach_players: "reachable ids g \<Longrightarrow> reachable ids (g\<lparr>players := ps\<rparr>)"

section \<open>The rules of the game, as the specification words them\<close>

text \<open>
  \<open>placeable\<close>: the column is in 0..6, the row in 0..5, the target cell is empty, and the
  row is the floor or the cell directly below is not empty.
\<close>

definition placeable :: "string list list \<Rightarrow> int \<Rightarrow> int \<Rightarrow> bool" where
  "placeable b c r =
     (0 \<le> c \<and> c \<le> 6 \<and> 0 \<le> r \<and> r \<le> 5 \<and> cellAt b r c = Some ''_'' \<and>
      (r = 5 \<or> (cellAt b (r + 1) c \<noteq> Some ''_'' \<and> cellAt b (r + 1) c \<noteq> None)))"

text \<open>Gravity: no cell of the grid is empty directly beneath an occupied one.\<close>

definition gravity :: "string list list \<Rightarrow> bool" where
  "gravity b =
     list_all (\<lambda>r. list_all (\<lambda>c. b ! r ! c = ''_'' \<or> b ! Suc r ! c \<noteq> ''_'') [0..<7]) [0..<5]"

text \<open>
  Four in a row: four cells of the grid in a line, from \<open>(r, c)\<close> in steps of \<open>(dr, dc)\<close>, that
  all hold the piece \<open>p\<close>; horizontally, vertically or along one of the two diagonals.
\<close>

definition lineAt :: "string list list \<Rightarrow> int \<Rightarrow> int \<Rightarrow> int \<Rightarrow> int \<Rightarrow> string \<Rightarrow> bool" where
  "lineAt b r c dr dc p =
     list_all (\<lambda>k. cellAt b (r + int k * dr) (c + int k * dc) = Some p) [0..<4]"

definition fourInARow :: "string list list \<Rightarrow> string \<Rightarrow> bool" where
  "fourInARow b p =
     list_ex (\<lambda>r. list_ex (\<lambda>c.
        lineAt b (int r) (int c) 0 1 p \<or> lineAt b (int r) (int c) 1 0 p \<or>
        lineAt b (int r) (int c) 1 1 p \<or> lineAt b (int r) (int c) (- 1) 1 p) [0..<7]) [0..<6]"

text \<open>The shape of the board: six rows of seven cells, each \<open>_\<close>, \<open>R\<close> or \<open>Y\<close>.\<close>

definition boardShape :: "string list list \<Rightarrow> bool" where
  "boardShape b =
     (length b = 6 \<and> list_all (\<lambda>cells. length cells = 7 \<and>
        list_all (\<lambda>x. x = ''_'' \<or> x = ''R'' \<or> x = ''Y'') cells) b)"

text \<open>
  A player identity is a non-empty string, and a single identity occupies at most one seat.
\<close>

definition seatsWellFormed :: "ConnectFourGameState \<Rightarrow> bool" where
  "seatsWellFormed s =
     (red s \<noteq> Some [] \<and> yellow s \<noteq> Some [] \<and> (red s \<noteq> yellow s \<or> red s = None))"

section \<open>The scans and the invariant of the rounds\<close>

text \<open>Four equal cells, none of them empty, next to each other in a list of cells.\<close>

fun hasRun4 :: "string list \<Rightarrow> bool" where
  "hasRun4 (a # b # c # d # xs) =
     ((a \<noteq> ''_'' \<and> b = a \<and> c = a \<and> d = a) \<or> hasRun4 (b # c # d # xs))"
| "hasRun4 _ = False"

text \<open>One of the four scans of \<open>_determineWinner\<close> for a win has a hit.\<close>

definition winDetected :: "string list list \<Rightarrow> bool" where
  "winDetected b = (horizontalWin b \<or> verticalWin b \<or> diagonalWin b 1 \<or> diagonalWin b (- 1))"

text \<open>A logged move lies in the grid.\<close>

definition inGrid :: "ConnectFourMove \<Rightarrow> bool" where
  "inGrid m = (0 \<le> row m \<and> row m < 6 \<and> 0 \<le> col m \<and> col m < 7)"

text \<open>
  The invariant of the board: it has its shape, it is the replay of the move log on the
  empty board, it obeys gravity, and every logged move lies in the grid.
\<close>

definition boardInvariant :: "ConnectFourGame \<Rightarrow> bool" where
  "boardInvariant g =
     (boardShape (board g) \<and>
      updateBoard emptyBoard (moves (state g)) = board g \<and>
      gravity (board g) \<and>
      list_all inGrid (moves (state g)))"

text \<open>
  The invariant of the rounds whose players have non-empty identities: that of the board,
  and the seats are well formed, and both are taken unless the game waits for players; a
  game in progress has no line of four on its board; a game that has not started has no
  moves.
\<close>

definition roundInvariant :: "ConnectFourGame \<Rightarrow> bool" where
  "roundInvariant g =
     (boardInvariant g \<and>
      seatsWellFormed (state g) \<and>
      (status (state g) \<noteq> WAITING_FOR_PLAYERS \<longrightarrow>
         red (state g) \<noteq> None \<and> yellow (state g) \<noteq> None) \<and>
      (status (state g) = IN_PROGRESS \<longrightarrow> \<not> winDetected (board g)) \<and>
      (status (state g) = WAITING_FOR_PLAYERS \<or> status (state g) = WAITING_TO_START \<longrightarrow>
         moves (state g) = []))"

section \<open>Rounds used as examples\<close>

text \<open>
  A game without a prior game that the players \<open>a\<close> and \<open>b\<close> have joined, and the same game
  after both have started it: \<open>a\<close> holds Red, \<open>b\<close> holds Yellow and Red moves first.
\<close>

definition roundWaitingToStart :: ConnectFourGame where
  "roundWaitingToStart = snd (join (snd (join (newConnectFourGame None) ''a'')) ''b'')"

definition roundInProgress :: ConnectFourGame where
  "roundInProgress = snd (startGame (snd (startGame roundWaitingToStart ''a'')) ''b'')"

definition moveAt :: "string \<Rightarrow> ConnectFourColor \<Rightarrow> int \<Rightarrow> int \<Rightarrow> GameMove" where
  "moveAt p gp c r =
     \<lparr> playerID = p, gameID = ''game'', move = \<lparr> gamePiece = gp, col = c, row = r \<rparr> \<rparr>"

text \<open>
  A successor of that round (its state is the prior state), before anyone has joined it.
\<close>

definition freshSuccessor :: ConnectFourGame where
  "freshSuccessor = newConnectFourGame (Some (state roundInProgress))"

text \<open>
  The successor round after a new player \<open>c\<close> has joined it (and holds Red), and after \<open>d\<close>
  has joined as well and \<open>c\<close> has left again (\<open>d\<close> holds Yellow, Red is free).
\<close>

definition successorRedTaken :: ConnectFourGame where
  "successorRedTaken = snd (join freshSuccessor ''c'')"

definition successorYellowTaken :: ConnectFourGame where
  "successorYellowTaken = snd (fst (leave (snd (join successorRedTaken ''d'')) ''c''))"

text \<open>
  A round whose prior game is the round of \<open>a\<close> (Red) and \<open>b\<close> (Yellow), in which Red moved
  first. It waits to start with two new players, \<open>d\<close> on Red and \<open>c\<close> on Yellow, and its
  first player is Yellow. It is the successor round after these calls: \<open>a\<close> joins, \<open>c\<close> joins,
  \<open>a\<close> reports ready (which makes Yellow the first player), \<open>a\<close> leaves, \<open>d\<close> joins
  (\<open>roundRejoined_run\<close> below).
\<close>

definition roundRejoined :: ConnectFourGame where
  "roundRejoined =
     \<lparr> state = \<lparr> moves = [], status = WAITING_TO_START, firstPlayer = Yellow,
                 red = Some ''d'', yellow = Some ''c'', redReady = Some False,
                 yellowReady = None, winner = None \<rparr>,
       lastGame = Some \<lparr> moves = [], status = IN_PROGRESS, firstPlayer = Red,
                 red = Some ''a'', yellow = Some ''b'', redReady = Some True,
                 yellowReady = Some True, winner = None \<rparr>,
       board = emptyBoard,
       players = [''c'', ''d''] \<rparr>"

text \<open>
  The round of \<open>a\<close> and \<open>b\<close> after six moves: three red discs on the floor in the columns
  0 to 2, and a yellow disc on each of them.
\<close>

definition roundAfterSixMoves :: ConnectFourGame where
  "roundAfterSixMoves =
     snd (applyMove (snd (applyMove (snd (applyMove (snd (applyMove (snd (applyMove
       (snd (applyMove roundInProgress
        (moveAt ''a'' Red 0 5))) (moveAt ''b'' Yellow 0 4))) (moveAt ''a'' Red 1 5)))
        (moveAt ''b'' Yellow 1 4))) (moveAt ''a'' Red 2 5))) (moveAt ''b'' Yellow 2 4))"

text \<open>
  The round of \<open>a\<close> and \<open>b\<close> after four moves in which \<open>a\<close>, who holds Red, has submitted
  yellow discs: three yellow discs on the floor in the columns 0 to 2 and a red one on the
  first of them.
\<close>

definition roundAfterFourMoves :: ConnectFourGame where
  "roundAfterFourMoves =
     snd (applyMove (snd (applyMove (snd (applyMove (snd (applyMove roundInProgress
       (moveAt ''a'' Yellow 0 5))) (moveAt ''b'' Yellow 1 5))) (moveAt ''a'' Yellow 2 5)))
       (moveAt ''b'' Red 0 4))"

text \<open>A run of calls of \<open>applyMove\<close>, each on the game that the call before it left.\<close>

definition applyMoves :: "ConnectFourGame \<Rightarrow> GameMove list \<Rightarrow> ConnectFourGame" where
  "applyMoves g mvs = foldl (\<lambda>g' mv. snd (applyMove g' mv)) g mvs"

text \<open>
  The moves of a game that fills the board without a line of four, \<open>a\<close> playing red discs
  and \<open>b\<close> yellow ones, but for the last move, and the round after these 41 moves.
\<close>

definition movesToFullBoard :: "GameMove list" where
  "movesToFullBoard =
     [moveAt ''a'' Red 0 5, moveAt ''b'' Yellow 0 4, moveAt ''a'' Red 2 5,
      moveAt ''b'' Yellow 0 3, moveAt ''a'' Red 0 2, moveAt ''b'' Yellow 1 5,
      moveAt ''a'' Red 0 1, moveAt ''b'' Yellow 0 0, moveAt ''a'' Red 1 4,
      moveAt ''b'' Yellow 2 4, moveAt ''a'' Red 1 3, moveAt ''b'' Yellow 1 2,
      moveAt ''a'' Red 4 5, moveAt ''b'' Yellow 1 1, moveAt ''a'' Red 1 0,
      moveAt ''b'' Yellow 2 3, moveAt ''a'' Red 2 2, moveAt ''b'' Yellow 3 5,
      moveAt ''a'' Red 2 1, moveAt ''b'' Yellow 2 0, moveAt ''a'' Red 3 4,
      moveAt ''b'' Yellow 4 4, moveAt ''a'' Red 3 3, moveAt ''b'' Yellow 3 2,
      moveAt ''a'' Red 6 5, moveAt ''b'' Yellow 3 1, moveAt ''a'' Red 3 0,
      moveAt ''b'' Yellow 4 3, moveAt ''a'' Red 4 2, moveAt ''b'' Yellow 5 5,
      moveAt ''a'' Red 4 1, moveAt ''b'' Yellow 4 0, moveAt ''a'' Red 5 4,
      moveAt ''b'' Yellow 6 4, moveAt ''a'' Red 5 3, moveAt ''b'' Yellow 6 3,
      moveAt ''a'' Red 6 2, moveAt ''b'' Yellow 5 2, moveAt ''a'' Red 6 1,
      moveAt ''b'' Yellow 5 1, moveAt ''a'' Red 5 0]"

definition roundBeforeLastMove :: ConnectFourGame where
  "roundBeforeLastMove =
     \<lparr> state = \<lparr> moves = map move movesToFullBoard,
         status = IN_PROGRESS, firstPlayer = Red,
         red = Some ''a'', yellow = Some ''b'', redReady = Some True, yellowReady = Some True,
         winner = None \<rparr>,
       lastGame = None,
       board =
         [[''Y'', ''R'', ''Y'', ''R'', ''Y'', ''R'', ''_''],
          [''R'', ''Y'', ''R'', ''Y'', ''R'', ''Y'', ''R''],
          [''R'', ''Y'', ''R'', ''Y'', ''R'', ''Y'', ''R''],
          [''Y'', ''R'', ''Y'', ''R'', ''Y'', ''R'', ''Y''],
          [''Y'', ''R'', ''Y'', ''R'', ''Y'', ''R'', ''Y''],
          [''R'', ''Y'', ''R'', ''Y'', ''R'', ''Y'', ''R'']],
       players = [] \<rparr>"

section \<open>Evaluating the example rounds\<close>

lemma roundWaitingToStart_state:
  "state roundWaitingToStart =
     \<lparr> moves = [], status = WAITING_TO_START, firstPlayer = Red,
       red = Some ''a'', yellow = Some ''b'', redReady = None, yellowReady = None,
       winner = None \<rparr>"
  by (simp add: roundWaitingToStart_def join_def joinSeat_def joinStatus_def
      newConnectFourGame_def truthy_def)

lemma roundWaitingToStart_rest:
  "lastGame roundWaitingToStart = None" "board roundWaitingToStart = emptyBoard"
  "players roundWaitingToStart = []"
  by (simp_all add: roundWaitingToStart_def join_def joinSeat_def joinStatus_def
      newConnectFourGame_def truthy_def)

lemma roundInProgress_state:
  "state roundInProgress =
     \<lparr> moves = [], status = IN_PROGRESS, firstPlayer = Red,
       red = Some ''a'', yellow = Some ''b'', redReady = Some True, yellowReady = Some True,
       winner = None \<rparr>"
  by (simp add: roundInProgress_def startGame_def startFirstPlayer_def startReady_def
      truthyFlag_def roundWaitingToStart_state roundWaitingToStart_rest)

lemma roundInProgress_rest:
  "lastGame roundInProgress = None" "board roundInProgress = emptyBoard"
  "players roundInProgress = []"
  by (simp_all add: roundInProgress_def startGame_def startFirstPlayer_def startReady_def
      truthyFlag_def roundWaitingToStart_state roundWaitingToStart_rest)

section \<open>The turn check follows the parity of the move log\<close>

text \<open>
  C4. The turn check \<open>_isTurn\<close> accepts a move exactly when the identity that submits it
  occupies the seat of the active colour: the first mover's colour when the length of the
  move log is even, the other colour when it is odd. Nothing else of the state is read, in
  particular not whether the other seat is occupied.
\<close>

theorem isTurn_active_seat:
  "isTurn g mv =
     (seatOf (state g)
        (if even (length (moves (state g))) then firstPlayer (state g)
         else (case firstPlayer (state g) of Red \<Rightarrow> Yellow | Yellow \<Rightarrow> Red))
      = Some (playerID mv))"
  by (cases "firstPlayer (state g)")
     (auto simp: isTurn_def seatOf_def getOtherPlayerColor_def Let_def even_iff_mod_2_eq_zero)

section \<open>Leaving a game\<close>

lemma leaveInProgress_firstPlayer:
  "firstPlayer (leaveInProgress s p) = firstPlayer s"
  by (simp add: leaveInProgress_def)

lemma leaveWaitingToStart_firstPlayer:
  "firstPlayer (leaveWaitingToStart s p) = firstPlayer s"
  by (simp add: leaveWaitingToStart_def)

lemma leaveWaitingForPlayers_firstPlayer:
  "firstPlayer (leaveWaitingForPlayers s p) = firstPlayer s"
  by (simp add: leaveWaitingForPlayers_def)

text \<open>
  After the block for a game that waits to start, the player who leaves no longer holds Red
  in a game that waits to start, so the branch of lines 220-228 is never taken.
\<close>

lemma leaveFirstPlayer_after_leaveWaitingToStart:
  "leaveFirstPlayer (leaveWaitingToStart s p) p = leaveWaitingToStart s p"
  by (simp add: leaveFirstPlayer_def leaveWaitingToStart_def)

text \<open>
  C9. A call of Leave leaves the first mover of the round as it was, in every status and
  for every player (seated or not): where the first-player branch of \<open>_leave\<close> runs, after
  the first two blocks of the method, it changes nothing of the state.
\<close>

theorem leave_firstPlayer_unchanged:
  "firstPlayer (state (snd (fst (leave g player)))) = firstPlayer (state g) \<and>
   leaveFirstPlayer (leaveWaitingToStart (leaveInProgress (state g) player) player) player
     = leaveWaitingToStart (leaveInProgress (state g) player) player"
  by (simp add: leave_def Let_def leaveFirstPlayer_after_leaveWaitingToStart
      leaveInProgress_firstPlayer leaveWaitingToStart_firstPlayer
      leaveWaitingForPlayers_firstPlayer)

section \<open>A call that throws has changed nothing\<close>

lemma join_throws:
  "fst (join g p) =
     (if red (state g) = Some p \<or> yellow (state g) = Some p
        then Some PLAYER_ALREADY_IN_GAME_MESSAGE
      else if truthy (red (state g)) \<and> truthy (yellow (state g))
              \<and> red (state g) \<noteq> yellow (state g)
        then Some GAME_FULL_MESSAGE
      else None)"
  by (simp add: join_def)

lemma startGame_throws:
  "fst (startGame g p) =
     (if status (state g) \<noteq> WAITING_TO_START then Some GAME_NOT_STARTABLE_MESSAGE
      else if red (state g) \<noteq> Some p \<and> yellow (state g) \<noteq> Some p
        then Some PLAYER_NOT_IN_GAME_MESSAGE
      else None)"
  by (simp add: startGame_def)

lemma applyMove_throws: "fst (applyMove g mv) = checkValidMove g mv"
  by (simp add: applyMove_def Let_def split: option.splits)

lemma leave_throws:
  "fst (fst (leave g p)) =
     (if red (state g) \<noteq> Some p \<and> yellow (state g) \<noteq> Some p
        then Some PLAYER_NOT_IN_GAME_MESSAGE else None)"
  by (simp add: leave_def Let_def)

lemma join_unchanged: "fst (join g p) \<noteq> None \<Longrightarrow> snd (join g p) = g"
  by (auto simp: join_def split: if_splits)

lemma startGame_unchanged: "fst (startGame g p) \<noteq> None \<Longrightarrow> snd (startGame g p) = g"
  by (auto simp: startGame_def split: if_splits)

lemma applyMove_unchanged: "fst (applyMove g mv) \<noteq> None \<Longrightarrow> snd (applyMove g mv) = g"
  by (simp add: applyMove_def Let_def split: option.splits)

lemma leave_unchanged:
  "fst (fst (leave g p)) \<noteq> None \<Longrightarrow> snd (fst (leave g p)) = g \<and> snd (leave g p) = []"
  by (simp add: leave_def Let_def split: if_splits)

text \<open>The three turn checks of \<open>_checkValidMove\<close> amount to the last one.\<close>

lemma checkValidMove_eq:
  "checkValidMove g mv =
     (if status (state g) \<noteq> IN_PROGRESS then Some GAME_NOT_IN_PROGRESS_MESSAGE
      else if red (state g) \<noteq> Some (playerID mv) \<and> yellow (state g) \<noteq> Some (playerID mv)
        then Some PLAYER_NOT_IN_GAME_MESSAGE
      else if \<not> isTurn g mv then Some MOVE_NOT_YOUR_TURN_MESSAGE
      else if \<not> checkValidBoardPosition g mv then Some BOARD_POSITION_NOT_VALID_MESSAGE
      else None)"
  by (simp add: checkValidMove_def Let_def)

lemma checkValidMove_messages:
  "checkValidMove g mv \<in>
     {None, Some GAME_NOT_IN_PROGRESS_MESSAGE, Some PLAYER_NOT_IN_GAME_MESSAGE,
      Some MOVE_NOT_YOUR_TURN_MESSAGE, Some BOARD_POSITION_NOT_VALID_MESSAGE}"
  by (simp add: checkValidMove_eq)

text \<open>
  C2. Each of Join, StartGame, ApplyMove and Leave returns or throws one of its messages,
  and a call that throws leaves the game as it was: the state (status, seats, ready flags,
  first mover, move log, winner), the board, the prior game and the players.
\<close>

theorem thrown_error_leaves_game_unchanged:
  "(fst (join g p) \<in> {None, Some PLAYER_ALREADY_IN_GAME_MESSAGE, Some GAME_FULL_MESSAGE}) \<and>
   (fst (join g p) \<noteq> None \<longrightarrow> snd (join g p) = g) \<and>
   (fst (startGame g p) \<in>
      {None, Some GAME_NOT_STARTABLE_MESSAGE, Some PLAYER_NOT_IN_GAME_MESSAGE}) \<and>
   (fst (startGame g p) \<noteq> None \<longrightarrow> snd (startGame g p) = g) \<and>
   (fst (applyMove g mv) \<in>
      {None, Some GAME_NOT_IN_PROGRESS_MESSAGE, Some PLAYER_NOT_IN_GAME_MESSAGE,
       Some MOVE_NOT_YOUR_TURN_MESSAGE, Some BOARD_POSITION_NOT_VALID_MESSAGE}) \<and>
   (fst (applyMove g mv) \<noteq> None \<longrightarrow> snd (applyMove g mv) = g) \<and>
   (fst (fst (leave g p)) \<in> {None, Some PLAYER_NOT_IN_GAME_MESSAGE}) \<and>
   (fst (fst (leave g p)) \<noteq> None \<longrightarrow> snd (fst (leave g p)) = g)"
proof -
  have "fst (join g p) \<in> {None, Some PLAYER_ALREADY_IN_GAME_MESSAGE, Some GAME_FULL_MESSAGE}"
    by (simp add: join_throws)
  moreover have "fst (startGame g p) \<in>
      {None, Some GAME_NOT_STARTABLE_MESSAGE, Some PLAYER_NOT_IN_GAME_MESSAGE}"
    by (simp add: startGame_throws)
  moreover have "fst (applyMove g mv) \<in>
      {None, Some GAME_NOT_IN_PROGRESS_MESSAGE, Some PLAYER_NOT_IN_GAME_MESSAGE,
       Some MOVE_NOT_YOUR_TURN_MESSAGE, Some BOARD_POSITION_NOT_VALID_MESSAGE}"
    using checkValidMove_messages [of g mv] by (simp only: applyMove_throws)
  moreover have "fst (fst (leave g p)) \<in> {None, Some PLAYER_NOT_IN_GAME_MESSAGE}"
    by (simp add: leave_throws)
  ultimately show ?thesis
    using join_unchanged [of g p] startGame_unchanged [of g p] applyMove_unchanged [of g mv]
      leave_unchanged [of g p]
    by blast
qed

text \<open>
  In the game that waits to start with \<open>a\<close> and \<open>b\<close> seated, a third player \<open>c\<close> makes each
  of the four operations throw.
\<close>

theorem thrown_error_leaves_game_unchanged_witness:
  "fst (join roundWaitingToStart ''c'') = Some GAME_FULL_MESSAGE \<and>
   snd (join roundWaitingToStart ''c'') = roundWaitingToStart \<and>
   fst (startGame roundWaitingToStart ''c'') = Some PLAYER_NOT_IN_GAME_MESSAGE \<and>
   snd (startGame roundWaitingToStart ''c'') = roundWaitingToStart \<and>
   fst (applyMove roundWaitingToStart (moveAt ''c'' Red 0 5))
     = Some GAME_NOT_IN_PROGRESS_MESSAGE \<and>
   snd (applyMove roundWaitingToStart (moveAt ''c'' Red 0 5)) = roundWaitingToStart \<and>
   fst (fst (leave roundWaitingToStart ''c'')) = Some PLAYER_NOT_IN_GAME_MESSAGE \<and>
   snd (fst (leave roundWaitingToStart ''c'')) = roundWaitingToStart"
proof -
  have j: "fst (join roundWaitingToStart ''c'') = Some GAME_FULL_MESSAGE"
    by (simp add: join_throws roundWaitingToStart_state truthy_def)
  have s: "fst (startGame roundWaitingToStart ''c'') = Some PLAYER_NOT_IN_GAME_MESSAGE"
    by (simp add: startGame_throws roundWaitingToStart_state)
  have m: "fst (applyMove roundWaitingToStart (moveAt ''c'' Red 0 5))
      = Some GAME_NOT_IN_PROGRESS_MESSAGE"
    by (simp add: applyMove_throws checkValidMove_eq roundWaitingToStart_state)
  have l: "fst (fst (leave roundWaitingToStart ''c'')) = Some PLAYER_NOT_IN_GAME_MESSAGE"
    by (simp add: leave_throws roundWaitingToStart_state)
  show ?thesis
    using thrown_error_leaves_game_unchanged
      [of roundWaitingToStart "''c''" "moveAt ''c'' Red 0 5"] j s m l
    by simp
qed

section \<open>A player leaves a game in progress\<close>

lemma createNewGame_fresh:
  "lastGame (createNewGame g) = None \<and> red (state (createNewGame g)) = None \<and>
   yellow (state (createNewGame g)) = None \<and>
   status (state (createNewGame g)) = WAITING_FOR_PLAYERS \<and>
   moves (state (createNewGame g)) = [] \<and> board (createNewGame g) = emptyBoard"
  by (simp add: createNewGame_def newConnectFourGame_def)

lemma leave_constructed:
  "set (snd (leave g player)) \<subseteq> {createNewGame (snd (fst (leave g player)))}"
  by (auto simp: leave_def Let_def)

lemma leave_in_progress_result:
  assumes "status (state g) = IN_PROGRESS"
    and "red (state g) = Some player \<or> yellow (state g) = Some player"
  shows "fst (leave g player) =
     (None, g\<lparr>state := (state g)\<lparr>winner := (if red (state g) = Some player
                          then yellow (state g) else red (state g)), status := OVER\<rparr>\<rparr>)"
  using assms by (auto simp: leave_def Let_def leaveInProgress_def)

text \<open>
  C1, as the code has it. When a seated player leaves a game in progress, the call returns,
  the round is over with the occupant of the other seat as winner, and nothing else of the
  game changes: no field of the game refers to a successor. What \<open>_createNewGame\<close> builds
  for the round that was left is a fresh game with both seats free, waiting for players,
  with an empty move log and an empty board, and without a prior game; the call constructs
  no other game.
\<close>

theorem leave_in_progress_ends_round:
  assumes "status (state g) = IN_PROGRESS"
    and "red (state g) = Some player \<or> yellow (state g) = Some player"
  shows "fst (leave g player) =
       (None, g\<lparr>state := (state g)\<lparr>winner := (if red (state g) = Some player
                          then yellow (state g) else red (state g)), status := OVER\<rparr>\<rparr>) \<and>
     set (snd (leave g player)) \<subseteq> {createNewGame (snd (fst (leave g player)))} \<and>
     lastGame (createNewGame (snd (fst (leave g player)))) = None \<and>
     red (state (createNewGame (snd (fst (leave g player))))) = None \<and>
     yellow (state (createNewGame (snd (fst (leave g player))))) = None \<and>
     status (state (createNewGame (snd (fst (leave g player))))) = WAITING_FOR_PLAYERS \<and>
     moves (state (createNewGame (snd (fst (leave g player))))) = [] \<and>
     board (createNewGame (snd (fst (leave g player)))) = emptyBoard"
  using leave_in_progress_result [OF assms] leave_constructed [of g player]
    createNewGame_fresh [of "snd (fst (leave g player))"]
  by (intro conjI) simp_all

theorem leave_in_progress_ends_round_witness:
  "status (state roundInProgress) = IN_PROGRESS \<and>
   (red (state roundInProgress) = Some ''a'' \<or> yellow (state roundInProgress) = Some ''a'') \<and>
   fst (leave roundInProgress ''a'') =
     (None, roundInProgress\<lparr>state := (state roundInProgress)\<lparr>winner := Some ''b'',
        status := OVER\<rparr>\<rparr>) \<and>
   lastGame (createNewGame (snd (fst (leave roundInProgress ''a'')))) = None"
proof -
  have h1: "status (state roundInProgress) = IN_PROGRESS"
    by (simp add: roundInProgress_state)
  have h2: "red (state roundInProgress) = Some ''a'' \<or> yellow (state roundInProgress) = Some ''a''"
    by (simp add: roundInProgress_state)
  have w: "(if red (state roundInProgress) = Some ''a'' then yellow (state roundInProgress)
      else red (state roundInProgress)) = Some ''b''"
    by (simp add: roundInProgress_state)
  note t = leave_in_progress_ends_round [OF h1 h2, unfolded w]
  show ?thesis
    using h1 h2 t [THEN conjunct1] t [THEN conjunct2, THEN conjunct2, THEN conjunct1]
    by (intro conjI)
qed

text \<open>
  C1, as the specification has it, fails: player \<open>a\<close> holds Red in a game in progress and
  leaves; the round is over, and the call has constructed no game at all, so none that has
  this round as its prior game.
\<close>

theorem leave_in_progress_no_successor:
  "status (state roundInProgress) = IN_PROGRESS \<and>
   red (state roundInProgress) = Some ''a'' \<and>
   fst (fst (leave roundInProgress ''a'')) = None \<and>
   status (state (snd (fst (leave roundInProgress ''a'')))) = OVER \<and>
   snd (leave roundInProgress ''a'') = []"
  by (simp add: leave_def Let_def leaveInProgress_def roundInProgress_state)

section \<open>The seat of a player who joins a successor round\<close>

lemma join_accepted_state:
  "fst (join g p) = None \<Longrightarrow>
   state (snd (join g p)) = joinStatus (joinSeat (lastGame g) (state g) p)"
  by (auto simp: join_def split: if_splits)

lemma join_accepted_rest:
  "lastGame (snd (join g p)) = lastGame g" "board (snd (join g p)) = board g"
  "players (snd (join g p)) = players g"
  by (simp_all add: join_def)

lemma joinStatus_seats: "red (joinStatus s) = red s" "yellow (joinStatus s) = yellow s"
  by (simp_all add: joinStatus_def)

lemma join_accepted_free_seat:
  assumes "seatsWellFormed (state g)" and "fst (join g p) = None"
  shows "red (state g) = None \<or> yellow (state g) = None"
  using assms
  by (auto simp: join_throws seatsWellFormed_def truthy_def split: if_splits option.splits)

text \<open>
  C5. In a round with a prior game, a player whom Join accepts is seated as follows (the
  seats of the round and of the prior game being well formed): Red if they held Red in the
  prior game and Red is free; Yellow if they held Yellow there and Yellow is free; the other
  seat, which is free, if the seat they held is taken; and if they held no seat in the prior
  game, Red if it is free and otherwise Yellow, which is then free. The other seat is left
  as it was.
\<close>

theorem join_seat_follows_predecessor:
  assumes "lastGame g = Some lg" and "seatsWellFormed (state g)" and "seatsWellFormed lg"
    and "fst (join g player) = None"
  shows
   "(red lg = Some player \<and> red (state g) = None \<longrightarrow>
       red (state (snd (join g player))) = Some player \<and>
       yellow (state (snd (join g player))) = yellow (state g)) \<and>
    (yellow lg = Some player \<and> yellow (state g) = None \<longrightarrow>
       yellow (state (snd (join g player))) = Some player \<and>
       red (state (snd (join g player))) = red (state g)) \<and>
    (red lg = Some player \<and> red (state g) \<noteq> None \<longrightarrow>
       yellow (state g) = None \<and>
       yellow (state (snd (join g player))) = Some player \<and>
       red (state (snd (join g player))) = red (state g)) \<and>
    (yellow lg = Some player \<and> yellow (state g) \<noteq> None \<longrightarrow>
       red (state g) = None \<and>
       red (state (snd (join g player))) = Some player \<and>
       yellow (state (snd (join g player))) = yellow (state g)) \<and>
    (red lg \<noteq> Some player \<and> yellow lg \<noteq> Some player \<longrightarrow>
       (if red (state g) = None
        then red (state (snd (join g player))) = Some player \<and>
             yellow (state (snd (join g player))) = yellow (state g)
        else yellow (state g) = None \<and>
             yellow (state (snd (join g player))) = Some player \<and>
             red (state (snd (join g player))) = red (state g)))"
proof -
  have free: "red (state g) = None \<or> yellow (state g) = None"
    using assms(2,4) by (rule join_accepted_free_seat)
  have one: "red lg \<noteq> Some player \<or> yellow lg \<noteq> Some player"
    using assms(3) by (auto simp: seatsWellFormed_def)
  show ?thesis
    using free one
    by (auto simp: join_accepted_state [OF assms(4)] joinStatus_seats joinSeat_def assms(1))
qed


lemmas run_defs = join_def joinSeat_def joinStatus_def startGame_def startFirstPlayer_def
  startReady_def leave_def leaveInProgress_def leaveWaitingToStart_def leaveFirstPlayer_def
  leaveWaitingForPlayers_def newConnectFourGame_def truthy_def truthyFlag_def Let_def
  Game_join_def Game_leave_def createNewGame_def

lemma freshSuccessor_eq:
  "freshSuccessor =
     \<lparr> state = \<lparr> moves = [], status = WAITING_FOR_PLAYERS, firstPlayer = Red,
                 red = None, yellow = None, redReady = None, yellowReady = None,
                 winner = None \<rparr>,
       lastGame = Some \<lparr> moves = [], status = IN_PROGRESS, firstPlayer = Red,
                 red = Some ''a'', yellow = Some ''b'', redReady = Some True,
                 yellowReady = Some True, winner = None \<rparr>,
       board = emptyBoard,
       players = [] \<rparr>"
  by (simp add: freshSuccessor_def newConnectFourGame_def roundInProgress_state)

lemma successorRedTaken_eq:
  "successorRedTaken = freshSuccessor\<lparr>state := (state freshSuccessor)\<lparr>red := Some ''c''\<rparr>\<rparr>"
  by (simp add: successorRedTaken_def freshSuccessor_eq run_defs)

lemma successorYellowTaken_eq:
  "successorYellowTaken =
     freshSuccessor\<lparr>state := (state freshSuccessor)\<lparr>yellow := Some ''d'',
       redReady := Some False\<rparr>\<rparr>"
  by (simp add: successorYellowTaken_def successorRedTaken_eq freshSuccessor_eq run_defs)

lemma roundRejoined_run:
  "roundRejoined =
     snd (Game_join (snd (Game_leave (snd (startGame
       (snd (Game_join (snd (Game_join freshSuccessor ''a'')) ''c'')) ''a'')) ''a'')) ''d'')"
  by (simp add: roundRejoined_def freshSuccessor_eq run_defs)

text \<open>
  The five cases of C5 in the successor of the round of \<open>a\<close> (Red) and \<open>b\<close> (Yellow): \<open>a\<close>
  and \<open>b\<close> get their seats back when these are free, each gets the other seat when a new
  player holds theirs, and the new players \<open>c\<close> and \<open>d\<close> get Red first and then Yellow.
\<close>

theorem join_seat_follows_predecessor_witness:
  "red (state (snd (join freshSuccessor ''a''))) = Some ''a'' \<and>
   yellow (state (snd (join freshSuccessor ''b''))) = Some ''b'' \<and>
   yellow (state (snd (join successorRedTaken ''a''))) = Some ''a'' \<and>
   red (state (snd (join successorYellowTaken ''b''))) = Some ''b'' \<and>
   red (state (snd (join freshSuccessor ''c''))) = Some ''c'' \<and>
   yellow (state (snd (join successorRedTaken ''d''))) = Some ''d''"
proof -
  let ?lg = "state roundInProgress"
  have wl: "seatsWellFormed ?lg"
    by (simp add: seatsWellFormed_def roundInProgress_state)
  have l0: "lastGame freshSuccessor = Some ?lg"
    and l1: "lastGame successorRedTaken = Some ?lg"
    and l2: "lastGame successorYellowTaken = Some ?lg"
    by (simp_all add: successorRedTaken_eq successorYellowTaken_eq freshSuccessor_def
        newConnectFourGame_def)
  have w0: "seatsWellFormed (state freshSuccessor)"
    and w1: "seatsWellFormed (state successorRedTaken)"
    and w2: "seatsWellFormed (state successorYellowTaken)"
    by (simp_all add: seatsWellFormed_def successorRedTaken_eq successorYellowTaken_eq
        freshSuccessor_eq)
  have a0: "fst (join freshSuccessor p) = None" for p
    by (simp add: join_throws freshSuccessor_eq truthy_def)
  have a1: "fst (join successorRedTaken ''a'') = None"
    "fst (join successorRedTaken ''d'') = None"
    by (simp_all add: join_throws successorRedTaken_eq freshSuccessor_eq truthy_def)
  have a2: "fst (join successorYellowTaken ''b'') = None"
    by (simp add: join_throws successorYellowTaken_eq freshSuccessor_eq truthy_def)
  show ?thesis
    using join_seat_follows_predecessor [OF l0 w0 wl a0, of "''a''"]
      join_seat_follows_predecessor [OF l0 w0 wl a0, of "''b''"]
      join_seat_follows_predecessor [OF l1 w1 wl a1(1)]
      join_seat_follows_predecessor [OF l2 w2 wl a2]
      join_seat_follows_predecessor [OF l0 w0 wl a0, of "''c''"]
      join_seat_follows_predecessor [OF l1 w1 wl a1(2)]
    by (simp add: roundInProgress_state successorRedTaken_eq successorYellowTaken_eq
        freshSuccessor_eq)
qed

section \<open>The first player of a round that starts\<close>

text \<open>What a call of \<open>startGame\<close> that returns does to the first player.\<close>

lemma startGame_firstPlayer:
  assumes "fst (startGame g player) = None"
  shows "firstPlayer (state (snd (startGame g player))) =
     (case lastGame g of
        None \<Rightarrow> Red
      | Some lg \<Rightarrow>
          if list_ex (\<lambda>p. Some p = red lg \<or> Some p = yellow lg) (players g)
          then (if firstPlayer lg = Red then Yellow else Red)
          else firstPlayer (state g))"
  using assms
  by (auto simp: startGame_def startFirstPlayer_def startReady_def Let_def
      split: if_splits option.splits)

text \<open>
  C6 fails on the code. The round \<open>roundRejoined\<close> has a prior game, in which \<open>a\<close> and \<open>b\<close>
  were seated and Red moved first. Its seats are held by \<open>d\<close> and \<open>c\<close>, who are its players
  and of whom neither held a seat in the prior game; its first player is Yellow, from the
  call of \<open>startGame\<close> by \<open>a\<close> before \<open>a\<close> left. When \<open>c\<close> now calls \<open>startGame\<close>, the call
  returns and the first player is still Yellow, where C6 and the comment of the method have
  Red.
\<close>

theorem startGame_firstPlayer_not_reset:
  "lastGame roundRejoined = Some (state roundInProgress) \<and>
   red (state roundInProgress) = Some ''a'' \<and> yellow (state roundInProgress) = Some ''b'' \<and>
   firstPlayer (state roundInProgress) = Red \<and>
   status (state roundRejoined) = WAITING_TO_START \<and>
   red (state roundRejoined) = Some ''d'' \<and> yellow (state roundRejoined) = Some ''c'' \<and>
   players roundRejoined = [''c'', ''d''] \<and>
   fst (startGame roundRejoined ''c'') = None \<and>
   firstPlayer (state (snd (startGame roundRejoined ''c''))) = Yellow"
  by (simp add: roundRejoined_def roundInProgress_state startGame_def
      startFirstPlayer_def startReady_def truthyFlag_def)

section \<open>Writing the board\<close>

lemma setCell_length: "length (setCell b r c v) = length b"
  by (simp add: setCell_def)

lemma setCell_row_length: "length (setCell b r c v ! i) = length (b ! i)"
  by (cases "nat r < length b") (auto simp: setCell_def nth_list_update list_update_beyond)

lemma setCell_overwrite: "setCell (setCell b r c v) r c v' = setCell b r c v'"
  by (cases "nat r < length b") (auto simp: setCell_def list_update_beyond)

lemma setCell_commute:
  "(r, c) \<noteq> (r', c') \<Longrightarrow>
   setCell (setCell b r c v) r' c' v' = setCell (setCell b r' c' v') r c v"
  by (cases "nat r < length b"; cases "nat r' < length b")
     (auto simp: setCell_def list_update_swap nth_list_update list_update_beyond)

lemma updateBoard_Nil: "updateBoard b [] = b"
  by (simp add: updateBoard_def)

lemma updateBoard_Cons:
  "updateBoard b (m # ms) = updateBoard (setCell b (row m) (col m) (pieceOf (gamePiece m))) ms"
  by (simp add: updateBoard_def)

lemma updateBoard_snoc:
  "updateBoard b (ms @ [m]) = setCell (updateBoard b ms) (row m) (col m) (pieceOf (gamePiece m))"
  by (simp add: updateBoard_def)

lemma updateBoard_absorbs:
  "m \<in> set ms \<Longrightarrow>
   updateBoard (setCell b (row m) (col m) (pieceOf (gamePiece m))) ms = updateBoard b ms"
proof (induction ms arbitrary: b)
  case Nil
  then show ?case by simp
next
  case (Cons x xs)
  show ?case
  proof (cases "(row m, col m) = (row x, col x)")
    case True
    then show ?thesis by (simp add: updateBoard_Cons setCell_overwrite)
  next
    case False
    then have "m \<in> set xs" using Cons.prems by auto
    then have "updateBoard (setCell (setCell b (row x) (col x) (pieceOf (gamePiece x)))
        (row m) (col m) (pieceOf (gamePiece m))) xs
      = updateBoard (setCell b (row x) (col x) (pieceOf (gamePiece x))) xs"
      by (rule Cons.IH)
    moreover have "setCell (setCell b (row m) (col m) (pieceOf (gamePiece m)))
        (row x) (col x) (pieceOf (gamePiece x))
      = setCell (setCell b (row x) (col x) (pieceOf (gamePiece x)))
        (row m) (col m) (pieceOf (gamePiece m))"
      using False by (rule setCell_commute)
    ultimately show ?thesis by (simp add: updateBoard_Cons)
  qed
qed

lemma updateBoard_replay_again:
  "set ms \<subseteq> set ns \<Longrightarrow> updateBoard (updateBoard b ms) ns = updateBoard b ns"
proof (induction ms arbitrary: b)
  case Nil
  then show ?case by (simp add: updateBoard_Nil)
next
  case (Cons x xs)
  then show ?case by (simp add: updateBoard_Cons updateBoard_absorbs)
qed

lemma hasRun4_Cons:
  "hasRun4 (a # xs) = ((a \<noteq> ''_'' \<and> take 3 xs = [a, a, a]) \<or> hasRun4 xs)"
proof (cases xs)
  case Nil then show ?thesis by simp
next
  case (Cons b ys)
  show ?thesis
  proof (cases ys)
    case Nil then show ?thesis using Cons by simp
  next
    case (Cons c zs)
    then show ?thesis using \<open>xs = b # ys\<close> by (cases zs) auto
  qed
qed

lemma countRun_hasRun4:
  "1 \<le> k \<Longrightarrow> k \<le> 3 \<Longrightarrow> p \<noteq> ''_'' \<or> k = 1 \<Longrightarrow>
   countRun p k xs = hasRun4 (replicate k p @ xs)"
proof (induction xs arbitrary: p k)
  case Nil
  have "k = 1 \<or> k = 2 \<or> k = 3" using Nil by arith
  then show ?case by (auto simp: numeral_2_eq_2 numeral_3_eq_3)
next
  case (Cons x xs)
  have k: "k = 1 \<or> k = 2 \<or> k = 3" using Cons.prems by arith
  show ?case
  proof (cases "x \<noteq> ''_'' \<and> x = p")
    case True
    then have xp: "x = p" and p: "p \<noteq> ''_''" by auto
    show ?thesis
    proof (cases "k = 3")
      case True
      then show ?thesis using xp p by (simp add: numeral_3_eq_3)
    next
      case False
      then have "countRun p k (x # xs) = countRun x (Suc k) xs"
        using xp p by simp
      also have "\<dots> = hasRun4 (replicate (Suc k) x @ xs)"
        using Cons.IH [of "Suc k" x] False k xp p by auto
      also have "\<dots> = hasRun4 (replicate k p @ x # xs)"
        using xp by (simp add: replicate_app_Cons_same)
      finally show ?thesis .
    qed
  next
    case False
    then have "countRun p k (x # xs) = countRun x 1 xs" by auto
    also have "\<dots> = hasRun4 (x # xs)"
      using Cons.IH [of 1 x] by simp
    also have "\<dots> = hasRun4 (replicate k p @ x # xs)"
      using k False Cons.prems(3)
      by (auto simp: numeral_2_eq_2 numeral_3_eq_3 hasRun4_Cons [of p])
    finally show ?thesis .
  qed
qed

lemma lineHasFour_hasRun4: "lineHasFour xs = hasRun4 xs"
  using countRun_hasRun4 [of 1]
  by (cases xs) (simp_all add: lineHasFour_def)


section \<open>Reading the board\<close>

lemma boardShape_iff:
  "boardShape b =
     (length b = 6 \<and>
      (\<forall>r<6. length (b ! r) = 7 \<and> (\<forall>c<7. b ! r ! c = ''_'' \<or> b ! r ! c = ''R'' \<or> b ! r ! c = ''Y'')))"
  by (simp add: boardShape_def list_all_length cong: conj_cong)

lemma upt_0_4: "[0..<4] = [0, 1, 2, 3]"
  by (simp add: upt_rec)

lemma lineAt_iff:
  "lineAt b r c dr dc p =
     (cellAt b r c = Some p \<and> cellAt b (r + dr) (c + dc) = Some p \<and>
      cellAt b (r + 2 * dr) (c + 2 * dc) = Some p \<and> cellAt b (r + 3 * dr) (c + 3 * dc) = Some p)"
  by (simp add: lineAt_def upt_0_4)

lemma fourInARow_iff:
  "fourInARow b p =
     (\<exists>r<6. \<exists>c<7. lineAt b (int r) (int c) 0 1 p \<or> lineAt b (int r) (int c) 1 0 p \<or>
        lineAt b (int r) (int c) 1 1 p \<or> lineAt b (int r) (int c) (- 1) 1 p)"
  by (simp add: fourInARow_def list_ex_iff Bex_def)

lemma cellAt_shape:
  "boardShape b \<Longrightarrow>
   cellAt b r c = (if 0 \<le> r \<and> r < 6 \<and> 0 \<le> c \<and> c < 7 then Some (b ! nat r ! nat c) else None)"
  by (auto simp: cellAt_def boardShape_iff)

lemma cellAt_nat:
  "boardShape b \<Longrightarrow> r < 6 \<Longrightarrow> c < 7 \<Longrightarrow> cellAt b (int r) (int c) = Some (b ! r ! c)"
  by (simp add: cellAt_shape)

lemma setCell_nth:
  assumes "boardShape b" "0 \<le> r0" "r0 < 6" "0 \<le> c0" "c0 < 7" "r < 6" "c < 7"
  shows "setCell b r0 c0 v ! r ! c = (if int r = r0 \<and> int c = c0 then v else b ! r ! c)"
proof -
  have len: "length b = 6" "length (b ! nat r0) = 7"
    using assms by (auto simp: boardShape_iff)
  have "setCell b r0 c0 v = b[nat r0 := (b ! nat r0)[nat c0 := v]]"
    using assms by (simp add: setCell_def)
  then show ?thesis
    using len assms(2-7) by (auto simp: nth_list_update)
qed

lemma setCell_outside:
  "\<not> (0 \<le> r0 \<and> r0 < 6 \<and> 0 \<le> c0 \<and> c0 < 7) \<Longrightarrow> setCell b r0 c0 v = b"
  by (auto simp: setCell_def)

lemma pieceOf_cases: "pieceOf gp = ''R'' \<or> pieceOf gp = ''Y''"
  by (simp add: pieceOf_def)

lemma pieceOf_not_empty: "pieceOf gp \<noteq> ''_''"
  by (simp add: pieceOf_def)

lemma setCell_shape:
  assumes "boardShape b"
  shows "boardShape (setCell b r0 c0 (pieceOf gp))"
proof (cases "0 \<le> r0 \<and> r0 < 6 \<and> 0 \<le> c0 \<and> c0 < 7")
  case True
  let ?b = "setCell b r0 c0 (pieceOf gp)"
  have old: "length b = 6" "\<And>r. r < 6 \<Longrightarrow> length (b ! r) = 7"
    "\<And>r c. r < 6 \<Longrightarrow> c < 7 \<Longrightarrow> b ! r ! c = ''_'' \<or> b ! r ! c = ''R'' \<or> b ! r ! c = ''Y''"
    using assms by (simp_all add: boardShape_iff)
  have "?b ! r ! c = ''_'' \<or> ?b ! r ! c = ''R'' \<or> ?b ! r ! c = ''Y''" if "r < 6" "c < 7" for r c
  proof -
    have "?b ! r ! c = (if int r = r0 \<and> int c = c0 then pieceOf gp else b ! r ! c)"
      using True that by (intro setCell_nth [OF assms]) auto
    then show ?thesis
      using pieceOf_cases [of gp] old(3) [OF that] by auto
  qed
  then show ?thesis
    using old(1,2) by (simp add: boardShape_iff [of ?b] setCell_length setCell_row_length)
next
  case False
  then show ?thesis using assms by (simp add: setCell_outside)
qed

lemma cellAt_setCell:
  assumes "boardShape b" "0 \<le> r0" "r0 < 6" "0 \<le> c0" "c0 < 7"
  shows "cellAt (setCell b r0 c0 v) r c = (if r = r0 \<and> c = c0 then Some v else cellAt b r c)"
proof -
  have len: "length b = 6" "\<And>i. i < 6 \<Longrightarrow> length (b ! i) = 7"
    using assms(1) by (auto simp: boardShape_iff)
  show ?thesis
  proof (cases "0 \<le> r \<and> r < 6 \<and> 0 \<le> c \<and> c < 7")
    case True
    then have n: "nat r < 6" "nat c < 7" by auto
    have "setCell b r0 c0 v ! nat r ! nat c = (if r = r0 \<and> c = c0 then v else b ! nat r ! nat c)"
      using setCell_nth [OF assms n, of v] True by auto
    then show ?thesis
      using True len n by (simp add: cellAt_def setCell_length setCell_row_length)
  next
    case False
    then have "cellAt (setCell b r0 c0 v) r c = None" "cellAt b r c = None"
      using len by (auto simp: cellAt_def setCell_length setCell_row_length)
    then show ?thesis using False assms(2-5) by auto
  qed
qed

lemma take3_iff:
  "take 3 xs = [a, a, a] \<longleftrightarrow> 3 \<le> length xs \<and> xs ! 0 = a \<and> xs ! 1 = a \<and> xs ! 2 = a"
proof (cases xs)
  case Nil then show ?thesis by simp
next
  case (Cons x ys)
  note xs = this
  show ?thesis
  proof (cases ys)
    case Nil then show ?thesis using xs by simp
  next
    case (Cons y zs)
    then show ?thesis using xs by (cases zs) (auto simp: numeral_3_eq_3 numeral_2_eq_2)
  qed
qed

lemma ex_nat_cases: "(\<exists>i::nat. P i) \<longleftrightarrow> P 0 \<or> (\<exists>j. P (Suc j))"
proof
  assume "\<exists>i. P i"
  then obtain i where "P i" ..
  then show "P 0 \<or> (\<exists>j. P (Suc j))" by (cases i) auto
next
  assume "P 0 \<or> (\<exists>j. P (Suc j))"
  then show "\<exists>i. P i" by auto
qed

lemma hasRun4_nth:
  "hasRun4 xs =
     (\<exists>i. i + 3 < length xs \<and> xs ! i \<noteq> ''_'' \<and> xs ! (i + 1) = xs ! i \<and>
        xs ! (i + 2) = xs ! i \<and> xs ! (i + 3) = xs ! i)"
proof (induction xs)
  case Nil
  then show ?case by simp
next
  case (Cons a xs)
  have "(\<exists>i. i + 3 < length (a # xs) \<and> (a # xs) ! i \<noteq> ''_'' \<and> (a # xs) ! (i + 1) = (a # xs) ! i \<and>
        (a # xs) ! (i + 2) = (a # xs) ! i \<and> (a # xs) ! (i + 3) = (a # xs) ! i)
     \<longleftrightarrow> (3 \<le> length xs \<and> a \<noteq> ''_'' \<and> xs ! 0 = a \<and> xs ! 1 = a \<and> xs ! 2 = a)
       \<or> (\<exists>j. j + 3 < length xs \<and> xs ! j \<noteq> ''_'' \<and> xs ! (j + 1) = xs ! j \<and>
        xs ! (j + 2) = xs ! j \<and> xs ! (j + 3) = xs ! j)"
    by (subst ex_nat_cases) (auto simp: numeral_2_eq_2 numeral_3_eq_3)
  then show ?case
    using Cons.IH by (simp only: hasRun4_Cons [of a xs] take3_iff) blast
qed

section \<open>The scans of \<open>_determineWinner\<close> find the lines of four\<close>

lemma lineAt_horizontal:
  assumes "boardShape b" "r < 6"
  shows "lineAt b (int r) (int c) 0 1 p =
     (c + 3 < 7 \<and> b ! r ! c = p \<and> b ! r ! (c + 1) = p \<and> b ! r ! (c + 2) = p \<and> b ! r ! (c + 3) = p)"
proof -
  have n: "nat (int c + 1) = c + 1" "nat (int c + 2) = c + 2" "nat (int c + 3) = c + 3"
    by auto
  show ?thesis
    using assms(2) by (auto simp: lineAt_iff cellAt_shape [OF assms(1)] n)
qed

lemma lineAt_vertical:
  assumes "boardShape b" "c < 7"
  shows "lineAt b (int r) (int c) 1 0 p =
     (r + 3 < 6 \<and> b ! r ! c = p \<and> b ! (r + 1) ! c = p \<and> b ! (r + 2) ! c = p \<and> b ! (r + 3) ! c = p)"
proof -
  have n: "nat (int r + 1) = r + 1" "nat (int r + 2) = r + 2" "nat (int r + 3) = r + 3"
    by auto
  show ?thesis
    using assms(2) by (auto simp: lineAt_iff cellAt_shape [OF assms(1)] n)
qed

lemma horizontalWin_iff:
  assumes "boardShape b"
  shows "horizontalWin b = (\<exists>p. p \<noteq> ''_'' \<and> (\<exists>r<6. \<exists>c<7. lineAt b (int r) (int c) 0 1 p))"
proof -
  have len: "length b = 6" "\<And>r. r < 6 \<Longrightarrow> length (b ! r) = 7"
    using assms by (simp_all add: boardShape_iff)
  have "horizontalWin b = (\<exists>r<6. hasRun4 (b ! r))"
    by (simp add: horizontalWin_def list_ex_length lineHasFour_hasRun4 len(1))
  also have "\<dots> = (\<exists>r<6. \<exists>c. c + 3 < 7 \<and> b ! r ! c \<noteq> ''_'' \<and> b ! r ! (c + 1) = b ! r ! c \<and>
        b ! r ! (c + 2) = b ! r ! c \<and> b ! r ! (c + 3) = b ! r ! c)"
    using len(2) by (simp only: hasRun4_nth cong: conj_cong)
  also have "\<dots> = (\<exists>p. p \<noteq> ''_'' \<and> (\<exists>r<6. \<exists>c<7. lineAt b (int r) (int c) 0 1 p))"
    (is "?L = ?R")
  proof
    assume ?L
    then obtain r c where h: "r < 6" "c + 3 < 7" "b ! r ! c \<noteq> ''_''" "b ! r ! (c + 1) = b ! r ! c"
      "b ! r ! (c + 2) = b ! r ! c" "b ! r ! (c + 3) = b ! r ! c" by blast
    then have "lineAt b (int r) (int c) 0 1 (b ! r ! c)" "c < 7"
      by (simp_all add: lineAt_horizontal [OF assms h(1)])
    then show ?R using h(1,3) by blast
  next
    assume ?R
    then obtain p r c where h: "p \<noteq> ''_''" "r < 6" "lineAt b (int r) (int c) 0 1 p" by blast
    then have "c + 3 < 7 \<and> b ! r ! c \<noteq> ''_'' \<and> b ! r ! (c + 1) = b ! r ! c \<and>
        b ! r ! (c + 2) = b ! r ! c \<and> b ! r ! (c + 3) = b ! r ! c"
      by (simp add: lineAt_horizontal [OF assms h(2)])
    then show ?L using h(2) by blast
  qed
  finally show ?thesis .
qed

lemma verticalWin_iff:
  assumes "boardShape b"
  shows "verticalWin b = (\<exists>p. p \<noteq> ''_'' \<and> (\<exists>r<6. \<exists>c<7. lineAt b (int r) (int c) 1 0 p))"
proof -
  have len: "length b = 6"
    using assms by (simp_all add: boardShape_iff)
  have nth: "map (\<lambda>cells. cells ! c) b ! r = b ! r ! c" if "r < 6" for r c
    using that len by simp
  have "verticalWin b = (\<exists>c<7. hasRun4 (map (\<lambda>cells. cells ! c) b))"
    by (simp add: verticalWin_def list_ex_iff Bex_def lineHasFour_hasRun4)
  also have "\<dots> = (\<exists>p. p \<noteq> ''_'' \<and> (\<exists>r<6. \<exists>c<7. lineAt b (int r) (int c) 1 0 p))"
    (is "?L = ?R")
  proof
    assume ?L
    then obtain c r where c: "c < 7" and h: "r + 3 < 6" "b ! r ! c \<noteq> ''_''"
      "b ! (r + 1) ! c = b ! r ! c" "b ! (r + 2) ! c = b ! r ! c" "b ! (r + 3) ! c = b ! r ! c"
      using len by (auto simp: hasRun4_nth)
    then have "lineAt b (int r) (int c) 1 0 (b ! r ! c)" "r < 6"
      by (simp_all add: lineAt_vertical [OF assms c])
    then show ?R using c h(2) by blast
  next
    assume ?R
    then obtain p r c where h: "p \<noteq> ''_''" "c < 7" "lineAt b (int r) (int c) 1 0 p" by blast
    then have "r + 3 < 6 \<and> b ! r ! c \<noteq> ''_'' \<and> b ! (r + 1) ! c = b ! r ! c \<and>
        b ! (r + 2) ! c = b ! r ! c \<and> b ! (r + 3) ! c = b ! r ! c"
      by (simp add: lineAt_vertical [OF assms h(2)])
    then have "hasRun4 (map (\<lambda>cells. cells ! c) b)"
      unfolding hasRun4_nth using len by (intro exI [of _ r]) simp
    then show ?L using h(2) by blast
  qed
  finally show ?thesis .
qed

lemma diagonalWin_iff:
  assumes "boardShape b"
  shows "diagonalWin b dr = (\<exists>p. p \<noteq> ''_'' \<and> (\<exists>r<6. \<exists>c<7. lineAt b (int r) (int c) dr 1 p))"
proof -
  have "diagonalWin b dr =
      (\<exists>r<6. \<exists>c<7. b ! r ! c \<noteq> ''_'' \<and> lineAt b (int r) (int c) dr 1 (b ! r ! c))"
    by (simp add: diagonalWin_def list_ex_iff Bex_def lineAt_iff Let_def)
  also have "\<dots> = (\<exists>p. p \<noteq> ''_'' \<and> (\<exists>r<6. \<exists>c<7. lineAt b (int r) (int c) dr 1 p))"
  proof
    assume "\<exists>r<6. \<exists>c<7. b ! r ! c \<noteq> ''_'' \<and> lineAt b (int r) (int c) dr 1 (b ! r ! c)"
    then show "\<exists>p. p \<noteq> ''_'' \<and> (\<exists>r<6. \<exists>c<7. lineAt b (int r) (int c) dr 1 p)" by blast
  next
    assume "\<exists>p. p \<noteq> ''_'' \<and> (\<exists>r<6. \<exists>c<7. lineAt b (int r) (int c) dr 1 p)"
    then obtain p r c where p: "p \<noteq> ''_''" and rc: "r < 6" "c < 7"
      and l: "lineAt b (int r) (int c) dr 1 p" by blast
    from l have "cellAt b (int r) (int c) = Some p" by (simp add: lineAt_iff)
    then have "b ! r ! c = p" using cellAt_nat [OF assms rc] by simp
    then show "\<exists>r<6. \<exists>c<7. b ! r ! c \<noteq> ''_'' \<and> lineAt b (int r) (int c) dr 1 (b ! r ! c)"
      using p rc l by blast
  qed
  finally show ?thesis .
qed

lemma fourInARowI:
  assumes "r < 6" "c < 7"
    and "lineAt b (int r) (int c) 0 1 p \<or> lineAt b (int r) (int c) 1 0 p \<or>
     lineAt b (int r) (int c) 1 1 p \<or> lineAt b (int r) (int c) (- 1) 1 p"
  shows "fourInARow b p"
  unfolding fourInARow_iff using assms by blast

lemma winDetected_iff:
  assumes "boardShape b"
  shows "winDetected b = (\<exists>p. p \<noteq> ''_'' \<and> fourInARow b p)"
proof
  assume "winDetected b"
  then consider "horizontalWin b" | "verticalWin b" | "diagonalWin b 1" | "diagonalWin b (- 1)"
    unfolding winDetected_def by blast
  then show "\<exists>p. p \<noteq> ''_'' \<and> fourInARow b p"
  proof cases
    case 1
    then obtain p r c where "p \<noteq> ''_''" "r < 6" "c < 7" "lineAt b (int r) (int c) 0 1 p"
      using horizontalWin_iff [OF assms] by blast
    then show ?thesis using fourInARowI [of r c b p] by blast
  next
    case 2
    then obtain p r c where "p \<noteq> ''_''" "r < 6" "c < 7" "lineAt b (int r) (int c) 1 0 p"
      using verticalWin_iff [OF assms] by blast
    then show ?thesis using fourInARowI [of r c b p] by blast
  next
    case 3
    then obtain p r c where "p \<noteq> ''_''" "r < 6" "c < 7" "lineAt b (int r) (int c) 1 1 p"
      using diagonalWin_iff [OF assms, of 1] by blast
    then show ?thesis using fourInARowI [of r c b p] by blast
  next
    case 4
    then obtain p r c where "p \<noteq> ''_''" "r < 6" "c < 7" "lineAt b (int r) (int c) (- 1) 1 p"
      using diagonalWin_iff [OF assms, of "- 1"] by blast
    then show ?thesis using fourInARowI [of r c b p] by blast
  qed
next
  assume "\<exists>p. p \<noteq> ''_'' \<and> fourInARow b p"
  then obtain p where p: "p \<noteq> ''_''" and "fourInARow b p" by blast
  then obtain r c where rc: "r < 6" "c < 7" and
    l: "lineAt b (int r) (int c) 0 1 p \<or> lineAt b (int r) (int c) 1 0 p \<or>
     lineAt b (int r) (int c) 1 1 p \<or> lineAt b (int r) (int c) (- 1) 1 p"
    unfolding fourInARow_iff by blast
  from l show "winDetected b"
  proof (elim disjE)
    assume "lineAt b (int r) (int c) 0 1 p"
    then have "horizontalWin b" using horizontalWin_iff [OF assms] p rc by blast
    then show ?thesis by (simp add: winDetected_def)
  next
    assume "lineAt b (int r) (int c) 1 0 p"
    then have "verticalWin b" using verticalWin_iff [OF assms] p rc by blast
    then show ?thesis by (simp add: winDetected_def)
  next
    assume "lineAt b (int r) (int c) 1 1 p"
    then have "diagonalWin b 1" using diagonalWin_iff [OF assms, of 1] p rc by blast
    then show ?thesis by (simp add: winDetected_def)
  next
    assume "lineAt b (int r) (int c) (- 1) 1 p"
    then have "diagonalWin b (- 1)" using diagonalWin_iff [OF assms, of "- 1"] p rc by blast
    then show ?thesis by (simp add: winDetected_def)
  qed
qed

lemma fourInARow_piece:
  assumes "boardShape b" "fourInARow b p"
  shows "p = ''_'' \<or> p = ''R'' \<or> p = ''Y''"
proof -
  from assms(2) obtain r c dr dc where rc: "r < 6" "c < 7"
    and l: "lineAt b (int r) (int c) dr dc p"
    unfolding fourInARow_iff by blast
  from l have "cellAt b (int r) (int c) = Some p" by (simp add: lineAt_iff)
  then have "b ! r ! c = p" using cellAt_nat [OF assms(1) rc] by simp
  then show ?thesis using assms(1) rc by (auto simp: boardShape_iff)
qed

lemma winDetected_colours:
  assumes "boardShape b"
  shows "winDetected b = (fourInARow b ''R'' \<or> fourInARow b ''Y'')"
proof
  assume "winDetected b"
  then have "\<exists>p. p \<noteq> ''_'' \<and> fourInARow b p"
    by (simp only: winDetected_iff [OF assms])
  then obtain p where p: "p \<noteq> ''_''" "fourInARow b p" by (elim exE conjE)
  have "p = ''_'' \<or> p = ''R'' \<or> p = ''Y''"
    using assms p(2) by (rule fourInARow_piece)
  then show "fourInARow b ''R'' \<or> fourInARow b ''Y''"
  proof (elim disjE)
    assume "p = ''_''" then show ?thesis using p(1) by simp
  next
    assume "p = ''R''" then show ?thesis using p(2) by simp
  next
    assume "p = ''Y''" then show ?thesis using p(2) by simp
  qed
next
  assume "fourInARow b ''R'' \<or> fourInARow b ''Y''"
  then have "\<exists>p. p \<noteq> ''_'' \<and> fourInARow b p"
  proof
    assume "fourInARow b ''R''"
    then have "''R'' \<noteq> ''_'' \<and> fourInARow b ''R''" by simp
    then show ?thesis by (rule exI)
  next
    assume "fourInARow b ''Y''"
    then have "''Y'' \<noteq> ''_'' \<and> fourInARow b ''Y''" by simp
    then show ?thesis by (rule exI)
  qed
  then show "winDetected b" by (simp only: winDetected_iff [OF assms])
qed


section \<open>An invariant of the four operations\<close>

lemma gravity_iff:
  "gravity b = (\<forall>r<5. \<forall>c<7. b ! r ! c = ''_'' \<or> b ! Suc r ! c \<noteq> ''_'')"
  by (simp add: gravity_def list_all_iff Ball_def)

lemma boardShape_emptyBoard: "boardShape emptyBoard"
  by (simp add: boardShape_iff emptyBoard_def)

lemma emptyBoard_nth: "r < 6 \<Longrightarrow> c < 7 \<Longrightarrow> emptyBoard ! r ! c = ''_''"
  by (simp add: emptyBoard_def)

lemma gravity_emptyBoard: "gravity emptyBoard"
  by (simp add: gravity_iff emptyBoard_nth)

lemma no_win_emptyBoard: "\<not> winDetected emptyBoard"
proof
  assume "winDetected emptyBoard"
  then have "\<exists>p. p \<noteq> ''_'' \<and> fourInARow emptyBoard p"
    by (simp only: winDetected_iff [OF boardShape_emptyBoard])
  then obtain p where p: "p \<noteq> ''_''" "fourInARow emptyBoard p" by (elim exE conjE)
  from p(2) obtain r c dr dc where rc: "r < 6" "c < 7"
    and l: "lineAt emptyBoard (int r) (int c) dr dc p"
    unfolding fourInARow_iff by blast
  from l have "cellAt emptyBoard (int r) (int c) = Some p" by (simp add: lineAt_iff)
  then have "emptyBoard ! r ! c = p" using cellAt_nat [OF boardShape_emptyBoard rc] by simp
  then show False using p(1) emptyBoard_nth [OF rc] by simp
qed

lemma roundInvariantD:
  assumes "roundInvariant g"
  shows "boardShape (board g)" and "updateBoard emptyBoard (moves (state g)) = board g"
    and "gravity (board g)" and "list_all inGrid (moves (state g))"
    and "seatsWellFormed (state g)"
    and "status (state g) \<noteq> WAITING_FOR_PLAYERS \<longrightarrow>
           red (state g) \<noteq> None \<and> yellow (state g) \<noteq> None"
    and "status (state g) = IN_PROGRESS \<longrightarrow> \<not> winDetected (board g)"
    and "status (state g) = WAITING_FOR_PLAYERS \<or> status (state g) = WAITING_TO_START \<longrightarrow>
           moves (state g) = []"
  using assms by (simp_all add: roundInvariant_def boardInvariant_def)

lemma boardInvariantD:
  assumes "boardInvariant g"
  shows "boardShape (board g)" and "updateBoard emptyBoard (moves (state g)) = board g"
    and "gravity (board g)" and "list_all inGrid (moves (state g))"
  using assms by (simp_all add: boardInvariant_def)

lemma roundInvariant_board: "roundInvariant g \<Longrightarrow> boardInvariant g"
  by (simp add: roundInvariant_def)

lemma boardInvariant_new: "boardInvariant (newConnectFourGame priorGame)"
  by (simp add: boardInvariant_def newConnectFourGame_def boardShape_emptyBoard
      gravity_emptyBoard updateBoard_Nil)

lemma roundInvariant_new: "roundInvariant (newConnectFourGame priorGame)"
  using boardInvariant_new [of priorGame]
  by (simp add: roundInvariant_def newConnectFourGame_def seatsWellFormed_def)

text \<open>An operation that leaves the board and the move log alone keeps the board invariant.\<close>

lemma boardInvariant_frame:
  "boardInvariant g \<Longrightarrow> board g' = board g \<Longrightarrow> moves (state g') = moves (state g) \<Longrightarrow>
   boardInvariant g'"
  by (simp add: boardInvariant_def)

lemma roundInvariant_players: "roundInvariant g \<Longrightarrow> roundInvariant (g\<lparr>players := ps\<rparr>)"
  by (simp add: roundInvariant_def boardInvariant_def)

text \<open>
  An operation that leaves the board and the move log alone keeps the invariant if it keeps
  the part about seats and status.
\<close>

lemma roundInvariant_state:
  assumes "roundInvariant g"
    and "board g' = board g" and "moves (state g') = moves (state g)"
    and "seatsWellFormed (state g')"
    and "status (state g') \<noteq> WAITING_FOR_PLAYERS \<longrightarrow>
         red (state g') \<noteq> None \<and> yellow (state g') \<noteq> None"
    and "status (state g') = IN_PROGRESS \<longrightarrow> status (state g) = IN_PROGRESS \<or> moves (state g) = []"
    and "status (state g') = WAITING_FOR_PLAYERS \<or> status (state g') = WAITING_TO_START \<longrightarrow>
         moves (state g) = []"
  shows "roundInvariant g'"
proof -
  have "\<not> winDetected (board g)" if "moves (state g) = []"
  proof -
    have "board g = emptyBoard"
      using roundInvariantD(2) [OF assms(1)] that by (simp add: updateBoard_Nil)
    then show ?thesis using no_win_emptyBoard by simp
  qed
  then show ?thesis
    using assms boardInvariant_frame [of g g'] unfolding roundInvariant_def by metis
qed

lemma joinSeat_frame:
  "moves (joinSeat lg s p) = moves s" "status (joinSeat lg s p) = status s"
  by (simp_all add: joinSeat_def split: option.splits)

lemma joinStatus_frame: "moves (joinStatus s) = moves s"
  by (simp add: joinStatus_def)

lemma joinStatus_status:
  "status (joinStatus s) =
     (if red s \<noteq> None \<and> yellow s \<noteq> None then WAITING_TO_START else status s)"
  by (simp add: joinStatus_def)

lemma joinSeat_seats:
  assumes "red s = None \<or> yellow s = None"
  shows "(red (joinSeat lg s p) = Some p \<and> yellow (joinSeat lg s p) = yellow s \<and> red s = None) \<or>
         (yellow (joinSeat lg s p) = Some p \<and> red (joinSeat lg s p) = red s \<and> yellow s = None)"
  using assms by (auto simp: joinSeat_def split: option.splits)

lemma roundInvariant_join:
  assumes inv: "roundInvariant g" and p: "p \<noteq> []"
  shows "roundInvariant (snd (join g p))"
proof (cases "fst (join g p) = None")
  case False
  then show ?thesis using inv join_unchanged [of g p] by simp
next
  case True
  let ?s = "state g" and ?s' = "state (snd (join g p))"
  have wf: "seatsWellFormed ?s" using inv by (rule roundInvariantD)
  have free: "red ?s = None \<or> yellow ?s = None"
    using wf True by (rule join_accepted_free_seat)
  have notin: "red ?s \<noteq> Some p" "yellow ?s \<noteq> Some p"
    using True by (auto simp: join_throws split: if_splits)
  have st: "status ?s = WAITING_FOR_PLAYERS"
    using roundInvariantD(6) [OF inv] free by auto
  then have empty: "moves ?s = []"
    using roundInvariantD(8) [OF inv] by simp
  have s': "?s' = joinStatus (joinSeat (lastGame g) ?s p)"
    using True by (rule join_accepted_state)
  have seats: "(red ?s' = Some p \<and> yellow ?s' = yellow ?s) \<or> (yellow ?s' = Some p \<and> red ?s' = red ?s)"
    using joinSeat_seats [OF free, of "lastGame g" p] by (auto simp: s' joinStatus_seats)
  have wf': "seatsWellFormed ?s'"
    using seats wf notin p unfolding seatsWellFormed_def by auto
  have status': "status ?s' = (if red ?s' \<noteq> None \<and> yellow ?s' \<noteq> None then WAITING_TO_START
      else WAITING_FOR_PLAYERS)"
    by (simp add: s' joinStatus_status joinStatus_seats joinSeat_frame st)
  show ?thesis
  proof (rule roundInvariant_state [OF inv])
    show "board (snd (join g p)) = board g" by (simp add: join_accepted_rest)
    show "moves ?s' = moves ?s" by (simp add: s' joinStatus_frame joinSeat_frame)
    show "seatsWellFormed ?s'" by (rule wf')
    show "status ?s' \<noteq> WAITING_FOR_PLAYERS \<longrightarrow> red ?s' \<noteq> None \<and> yellow ?s' \<noteq> None"
      using status' by (auto split: if_splits)
    show "status ?s' = IN_PROGRESS \<longrightarrow> status ?s = IN_PROGRESS \<or> moves ?s = []"
      using empty by simp
    show "status ?s' = WAITING_FOR_PLAYERS \<or> status ?s' = WAITING_TO_START \<longrightarrow> moves ?s = []"
      using empty by simp
  qed
qed

lemma startGame_accepted_state:
  "fst (startGame g p) = None \<Longrightarrow>
   state (snd (startGame g p)) = startReady (startFirstPlayer g (state g) p) p"
  by (auto simp: startGame_def split: if_splits)

lemma startGame_rest:
  "lastGame (snd (startGame g p)) = lastGame g" "board (snd (startGame g p)) = board g"
  "players (snd (startGame g p)) = players g"
  by (simp_all add: startGame_def)

lemma startFirstPlayer_frame:
  "moves (startFirstPlayer g s p) = moves s" "status (startFirstPlayer g s p) = status s"
  "red (startFirstPlayer g s p) = red s" "yellow (startFirstPlayer g s p) = yellow s"
  "redReady (startFirstPlayer g s p) = redReady s"
  "yellowReady (startFirstPlayer g s p) = yellowReady s"
  "winner (startFirstPlayer g s p) = winner s"
  by (simp_all add: startFirstPlayer_def split: option.splits)

lemma startReady_frame:
  "moves (startReady s p) = moves s" "red (startReady s p) = red s"
  "yellow (startReady s p) = yellow s" "firstPlayer (startReady s p) = firstPlayer s"
  "winner (startReady s p) = winner s"
  by (simp_all add: startReady_def Let_def)

lemma startReady_status:
  "status (startReady s p) = IN_PROGRESS \<or> status (startReady s p) = status s"
  by (simp add: startReady_def Let_def)

lemma roundInvariant_startGame:
  assumes inv: "roundInvariant g"
  shows "roundInvariant (snd (startGame g p))"
proof (cases "fst (startGame g p) = None")
  case False
  then show ?thesis using inv startGame_unchanged [of g p] by simp
next
  case True
  let ?s = "state g" and ?s' = "state (snd (startGame g p))"
  have st: "status ?s = WAITING_TO_START"
    using True by (auto simp: startGame_throws split: if_splits)
  have empty: "moves ?s = []" and full: "red ?s \<noteq> None \<and> yellow ?s \<noteq> None"
    and wf: "seatsWellFormed ?s"
    using roundInvariantD(5,6,8) [OF inv] st by simp_all
  have s': "?s' = startReady (startFirstPlayer g ?s p) p"
    using True by (rule startGame_accepted_state)
  have seats: "red ?s' = red ?s" "yellow ?s' = yellow ?s"
    by (simp_all add: s' startReady_frame startFirstPlayer_frame)
  show ?thesis
  proof (rule roundInvariant_state [OF inv])
    show "board (snd (startGame g p)) = board g" by (simp add: startGame_rest)
    show "moves ?s' = moves ?s" by (simp add: s' startReady_frame startFirstPlayer_frame)
    show "seatsWellFormed ?s'" using wf seats by (simp add: seatsWellFormed_def)
    show "status ?s' \<noteq> WAITING_FOR_PLAYERS \<longrightarrow> red ?s' \<noteq> None \<and> yellow ?s' \<noteq> None"
      using full seats by simp
    show "status ?s' = IN_PROGRESS \<longrightarrow> status ?s = IN_PROGRESS \<or> moves ?s = []"
      using empty by simp
    show "status ?s' = WAITING_FOR_PLAYERS \<or> status ?s' = WAITING_TO_START \<longrightarrow> moves ?s = []"
      using empty by simp
  qed
qed

lemma leave_rest:
  "lastGame (snd (fst (leave g p))) = lastGame g" "board (snd (fst (leave g p))) = board g"
  "players (snd (fst (leave g p))) = players g"
  by (simp_all add: leave_def Let_def)

lemma leave_accepted_state:
  assumes "red (state g) = Some p \<or> yellow (state g) = Some p"
  shows "state (snd (fst (leave g p))) =
     (if status (state g) = IN_PROGRESS \<or> status (state g) = OVER
      then leaveInProgress (state g) p
      else leaveWaitingForPlayers (leaveWaitingToStart (state g) p) p)"
proof (cases "status (state g) = IN_PROGRESS \<or> status (state g) = OVER")
  case True
  then have "status (leaveInProgress (state g) p) = OVER"
    "red (leaveInProgress (state g) p) = red (state g)"
    "yellow (leaveInProgress (state g) p) = yellow (state g)"
    using assms by (auto simp: leaveInProgress_def)
  then show ?thesis using True assms by (auto simp: leave_def Let_def)
next
  case False
  then have "leaveInProgress (state g) p = state g"
    by (auto simp: leaveInProgress_def)
  then show ?thesis
    using False assms
    by (auto simp: leave_def Let_def leaveFirstPlayer_after_leaveWaitingToStart)
qed

lemma leaveInProgress_frame:
  "moves (leaveInProgress s p) = moves s" "red (leaveInProgress s p) = red s"
  "yellow (leaveInProgress s p) = yellow s"
  by (simp_all add: leaveInProgress_def)

lemma leaveWaiting_frame:
  "moves (leaveWaitingForPlayers (leaveWaitingToStart s p) p) = moves s"
  by (simp add: leaveWaitingForPlayers_def leaveWaitingToStart_def)

lemma leaveWaiting_status:
  assumes "red s = Some p \<or> yellow s = Some p"
    and "status s = WAITING_FOR_PLAYERS \<or> status s = WAITING_TO_START"
  shows "status (leaveWaitingForPlayers (leaveWaitingToStart s p) p) = WAITING_FOR_PLAYERS"
  using assms by (auto simp: leaveWaitingForPlayers_def leaveWaitingToStart_def)

lemma leaveWaiting_seats:
  "seatsWellFormed s \<Longrightarrow>
   seatsWellFormed (leaveWaitingForPlayers (leaveWaitingToStart s p) p)"
  by (auto simp: leaveWaitingForPlayers_def leaveWaitingToStart_def seatsWellFormed_def)

lemma roundInvariant_leave:
  assumes inv: "roundInvariant g"
  shows "roundInvariant (snd (fst (leave g p)))"
proof (cases "fst (fst (leave g p)) = None")
  case False
  then show ?thesis using inv leave_unchanged [of g p] by simp
next
  case True
  let ?s = "state g" and ?s' = "state (snd (fst (leave g p)))"
  have seated: "red ?s = Some p \<or> yellow ?s = Some p"
    using True by (auto simp: leave_throws split: if_splits)
  note s' = leave_accepted_state [OF seated]
  show ?thesis
  proof (cases "status ?s = IN_PROGRESS \<or> status ?s = OVER")
    case True
    then have eq: "?s' = leaveInProgress ?s p" by (simp add: s')
    have st': "status ?s' = OVER"
      using True seated by (auto simp: eq leaveInProgress_def)
    have full: "red ?s \<noteq> None \<and> yellow ?s \<noteq> None"
      using roundInvariantD(6) [OF inv] True by auto
    show ?thesis
    proof (rule roundInvariant_state [OF inv])
      show "board (snd (fst (leave g p))) = board g" by (simp add: leave_rest)
      show "moves ?s' = moves ?s" by (simp add: eq leaveInProgress_frame)
      show "seatsWellFormed ?s'"
        using roundInvariantD(5) [OF inv] by (simp add: seatsWellFormed_def eq leaveInProgress_frame)
      show "status ?s' \<noteq> WAITING_FOR_PLAYERS \<longrightarrow> red ?s' \<noteq> None \<and> yellow ?s' \<noteq> None"
        using full by (simp add: eq leaveInProgress_frame)
      show "status ?s' = IN_PROGRESS \<longrightarrow> status ?s = IN_PROGRESS \<or> moves ?s = []"
        using st' by simp
      show "status ?s' = WAITING_FOR_PLAYERS \<or> status ?s' = WAITING_TO_START \<longrightarrow> moves ?s = []"
        using st' by simp
    qed
  next
    case False
    then have w: "status ?s = WAITING_FOR_PLAYERS \<or> status ?s = WAITING_TO_START"
      by (cases "status ?s") auto
    have eq: "?s' = leaveWaitingForPlayers (leaveWaitingToStart ?s p) p"
      using False by (simp add: s')
    have st': "status ?s' = WAITING_FOR_PLAYERS"
      unfolding eq using seated w by (rule leaveWaiting_status)
    have empty: "moves ?s = []" using roundInvariantD(8) [OF inv] w by simp
    show ?thesis
    proof (rule roundInvariant_state [OF inv])
      show "board (snd (fst (leave g p))) = board g" by (simp add: leave_rest)
      show "moves ?s' = moves ?s" by (simp add: eq leaveWaiting_frame)
      show "seatsWellFormed ?s'"
        unfolding eq using roundInvariantD(5) [OF inv] by (rule leaveWaiting_seats)
      show "status ?s' \<noteq> WAITING_FOR_PLAYERS \<longrightarrow> red ?s' \<noteq> None \<and> yellow ?s' \<noteq> None"
        using st' by simp
      show "status ?s' = IN_PROGRESS \<longrightarrow> status ?s = IN_PROGRESS \<or> moves ?s = []"
        using empty by simp
      show "status ?s' = WAITING_FOR_PLAYERS \<or> status ?s' = WAITING_TO_START \<longrightarrow> moves ?s = []"
        using empty by simp
    qed
  qed
qed

lemma checkValidMove_accepted:
  assumes "checkValidMove g mv = None"
  shows "status (state g) = IN_PROGRESS"
    and "red (state g) = Some (playerID mv) \<or> yellow (state g) = Some (playerID mv)"
    and "isTurn g mv" and "checkValidBoardPosition g mv"
  using assms by (auto simp: checkValidMove_eq split: if_splits)

lemma checkValidBoardPosition_iff:
  "checkValidBoardPosition g mv =
     (0 \<le> col (move mv) \<and> col (move mv) < 7 \<and> 0 \<le> row (move mv) \<and> row (move mv) < 6 \<and>
      board g ! nat (row (move mv)) ! nat (col (move mv)) = ''_'' \<and>
      (row (move mv) = 5 \<or> board g ! nat (row (move mv) + 1) ! nat (col (move mv)) \<noteq> ''_''))"
  by (auto simp: checkValidBoardPosition_def Let_def)

lemma determineWinner_rest:
  "board (determineWinner g m) = board g" "lastGame (determineWinner g m) = lastGame g"
  "players (determineWinner g m) = players g"
  by (simp_all add: determineWinner_def Let_def)

lemma determineWinner_state:
  "state (determineWinner g m) =
     (if winDetected (board g)
        then (state g)\<lparr>status := OVER,
               winner := (if gamePiece m = Red then red (state g) else yellow (state g))\<rparr>
      else if boardFullCheck g then (state g)\<lparr>status := OVER, winner := None\<rparr>
      else state g)"
  by (simp add: determineWinner_def Let_def winDetected_def)

lemma applyMove_accepted:
  assumes "checkValidMove g mv = None"
  shows "snd (applyMove g mv) =
     determineWinner
       (g\<lparr>state := (state g)\<lparr>moves := moves (state g) @ [move mv]\<rparr>,
          board := updateBoard (board g) (moves (state g) @ [move mv])\<rparr>) (move mv)"
  using assms by (simp add: applyMove_def Let_def)

lemma gravity_setCell:
  assumes shape: "boardShape b" and grav: "gravity b"
    and r: "0 \<le> r0" "r0 < 6" and c: "0 \<le> c0" "c0 < 7"
    and v: "v \<noteq> ''_''"
    and below: "r0 = 5 \<or> b ! nat (r0 + 1) ! nat c0 \<noteq> ''_''"
  shows "gravity (setCell b r0 c0 v)"
  unfolding gravity_iff
proof (intro allI impI)
  fix r c :: nat
  assume rc: "r < 5" "c < 7"
  let ?b = "setCell b r0 c0 v"
  have here: "?b ! r ! c = (if int r = r0 \<and> int c = c0 then v else b ! r ! c)"
    using rc by (intro setCell_nth [OF shape r c]) auto
  have under: "?b ! Suc r ! c = (if int (Suc r) = r0 \<and> int c = c0 then v else b ! Suc r ! c)"
    using rc by (intro setCell_nth [OF shape r c]) auto
  have old: "b ! r ! c = ''_'' \<or> b ! Suc r ! c \<noteq> ''_''"
    using grav rc by (simp add: gravity_iff)
  show "?b ! r ! c = ''_'' \<or> ?b ! Suc r ! c \<noteq> ''_''"
  proof (cases "int (Suc r) = r0 \<and> int c = c0")
    case True
    then show ?thesis using under v by simp
  next
    case False
    then have same: "?b ! Suc r ! c = b ! Suc r ! c" using under by auto
    show ?thesis
    proof (cases "int r = r0 \<and> int c = c0")
      case True
      then have "r0 \<noteq> 5" "nat (r0 + 1) = Suc r" "nat c0 = c" using rc by auto
      then have "b ! Suc r ! c \<noteq> ''_''" using below by auto
      then show ?thesis using same by simp
    next
      case False
      then have "?b ! r ! c = b ! r ! c" using here by auto
      then show ?thesis using same old by simp
    qed
  qed
qed

lemma boardInvariant_replayed:
  assumes "boardInvariant g"
  shows "updateBoard (board g) (moves (state g) @ [m]) =
     setCell (board g) (row m) (col m) (pieceOf (gamePiece m))"
proof -
  have "updateBoard (board g) (moves (state g)) = board g"
    using updateBoard_replay_again [of "moves (state g)" "moves (state g)" emptyBoard]
      boardInvariantD(2) [OF assms] by simp
  then show ?thesis by (simp add: updateBoard_snoc)
qed

lemma applyMove_accepted_result:
  assumes binv: "boardInvariant g" and valid: "checkValidMove g mv = None"
  shows "snd (applyMove g mv) =
     determineWinner
       (g\<lparr>state := (state g)\<lparr>moves := moves (state g) @ [move mv]\<rparr>,
          board := setCell (board g) (row (move mv)) (col (move mv))
                     (pieceOf (gamePiece (move mv)))\<rparr>) (move mv)"
  using applyMove_accepted [OF valid] boardInvariant_replayed [OF binv, of "move mv"] by simp

lemma boardInvariant_applyMove:
  assumes binv: "boardInvariant g"
  shows "boardInvariant (snd (applyMove g mv))"
proof (cases "checkValidMove g mv = None")
  case False
  then show ?thesis using binv applyMove_unchanged [of g mv] by (simp add: applyMove_throws)
next
  case True
  let ?m = "move mv"
  let ?b' = "setCell (board g) (row ?m) (col ?m) (pieceOf (gamePiece ?m))"
  let ?g1 = "g\<lparr>state := (state g)\<lparr>moves := moves (state g) @ [?m]\<rparr>, board := ?b'\<rparr>"
  have g': "snd (applyMove g mv) = determineWinner ?g1 ?m"
    using binv True by (rule applyMove_accepted_result)
  have pos: "0 \<le> col ?m" "col ?m < 7" "0 \<le> row ?m" "row ?m < 6"
    "board g ! nat (row ?m) ! nat (col ?m) = ''_''"
    "row ?m = 5 \<or> board g ! nat (row ?m + 1) ! nat (col ?m) \<noteq> ''_''"
    using checkValidMove_accepted(4) [OF True] by (simp_all add: checkValidBoardPosition_iff)
  have shape: "boardShape (board g)" using binv by (rule boardInvariantD)
  have shape': "boardShape ?b'" using shape by (rule setCell_shape)
  have replay': "updateBoard emptyBoard (moves (state g) @ [?m]) = ?b'"
    using boardInvariantD(2) [OF binv] by (simp add: updateBoard_snoc)
  have grav': "gravity ?b'"
    using shape boardInvariantD(3) [OF binv] pos(3,4,1,2) pieceOf_not_empty pos(6)
    by (rule gravity_setCell)
  have grid': "list_all inGrid (moves (state g) @ [?m])"
    using boardInvariantD(4) [OF binv] pos(1-4) by (simp add: inGrid_def)
  have log': "moves (state (determineWinner ?g1 ?m)) = moves (state g) @ [?m]"
    by (simp add: determineWinner_state)
  show ?thesis
    unfolding g' boardInvariant_def determineWinner_rest log'
    using shape' replay' grav' grid' by simp
qed

lemma roundInvariant_applyMove:
  assumes inv: "roundInvariant g"
  shows "roundInvariant (snd (applyMove g mv))"
proof (cases "checkValidMove g mv = None")
  case False
  then show ?thesis using inv applyMove_unchanged [of g mv] by (simp add: applyMove_throws)
next
  case True
  let ?m = "move mv"
  let ?b' = "setCell (board g) (row ?m) (col ?m) (pieceOf (gamePiece ?m))"
  let ?g1 = "g\<lparr>state := (state g)\<lparr>moves := moves (state g) @ [?m]\<rparr>, board := ?b'\<rparr>"
  have binv: "boardInvariant g" using inv by (rule roundInvariant_board)
  have g': "snd (applyMove g mv) = determineWinner ?g1 ?m"
    using binv True by (rule applyMove_accepted_result)
  have binv': "boardInvariant (determineWinner ?g1 ?m)"
    using boardInvariant_applyMove [OF binv, of mv] by (simp only: g')
  have st: "status (state g) = IN_PROGRESS" using True by (rule checkValidMove_accepted)
  have full: "red (state g) \<noteq> None \<and> yellow (state g) \<noteq> None"
    using roundInvariantD(6) [OF inv] st by simp
  have wf: "seatsWellFormed (state g)" using inv by (rule roundInvariantD)
  let ?s' = "state (determineWinner ?g1 ?m)"
  have frame: "red ?s' = red (state g)" "yellow ?s' = yellow (state g)"
    by (simp_all add: determineWinner_state)
  have status': "status ?s' = OVER \<or> (status ?s' = IN_PROGRESS \<and> \<not> winDetected ?b')"
    using st by (simp add: determineWinner_state)
  show ?thesis
    unfolding g' roundInvariant_def determineWinner_rest
    using binv' full wf status'
    by (auto simp: seatsWellFormed_def frame)
qed

lemma boardInvariant_join: "boardInvariant g \<Longrightarrow> boardInvariant (snd (join g p))"
proof (cases "fst (join g p) = None")
  case True
  assume "boardInvariant g"
  then show ?thesis
    by (rule boardInvariant_frame)
      (simp_all add: join_accepted_rest join_accepted_state [OF True] joinStatus_frame
        joinSeat_frame)
next
  case False
  assume "boardInvariant g"
  then show ?thesis using join_unchanged [OF False] by simp
qed

lemma boardInvariant_startGame: "boardInvariant g \<Longrightarrow> boardInvariant (snd (startGame g p))"
proof (cases "fst (startGame g p) = None")
  case True
  assume "boardInvariant g"
  then show ?thesis
    by (rule boardInvariant_frame)
      (simp_all add: startGame_rest startGame_accepted_state [OF True] startReady_frame
        startFirstPlayer_frame)
next
  case False
  assume "boardInvariant g"
  then show ?thesis using startGame_unchanged [OF False] by simp
qed

lemma leave_moves: "moves (state (snd (fst (leave g p)))) = moves (state g)"
  by (simp add: leave_def Let_def leaveInProgress_def leaveWaitingToStart_def
      leaveFirstPlayer_def leaveWaitingForPlayers_def)

lemma boardInvariant_leave: "boardInvariant g \<Longrightarrow> boardInvariant (snd (fst (leave g p)))"
  by (erule boardInvariant_frame) (simp_all add: leave_rest leave_moves)


section \<open>Every round satisfies the invariant\<close>

lemma reachable_boardInvariant: "reachable ids g \<Longrightarrow> boardInvariant g"
proof (induction rule: reachable.induct)
  case (reach_new priorGame)
  show ?case by (rule boardInvariant_new)
next
  case (reach_join g player)
  then show ?case by (simp add: boardInvariant_join)
next
  case (reach_startGame g player)
  then show ?case by (simp add: boardInvariant_startGame)
next
  case (reach_applyMove g mv)
  then show ?case by (simp add: boardInvariant_applyMove)
next
  case (reach_leave g player)
  then show ?case by (simp add: boardInvariant_leave)
next
  case (reach_players g ps)
  then show ?case by (simp add: boardInvariant_def)
qed

lemma reachable_roundInvariant:
  assumes "[] \<notin> ids" and "reachable ids g"
  shows "roundInvariant g"
  using assms(2)
proof (induction rule: reachable.induct)
  case (reach_new priorGame)
  show ?case by (rule roundInvariant_new)
next
  case (reach_join g player)
  then have "player \<noteq> []" using assms(1) by auto
  then show ?case using reach_join.IH by (simp add: roundInvariant_join)
next
  case (reach_startGame g player)
  then show ?case by (simp add: roundInvariant_startGame)
next
  case (reach_applyMove g mv)
  then show ?case by (simp add: roundInvariant_applyMove)
next
  case (reach_leave g player)
  then show ?case by (simp add: roundInvariant_leave)
next
  case (reach_players g ps)
  then show ?case by (simp add: roundInvariant_players)
qed

lemma reachable_inGrid: "reachable ids g \<Longrightarrow> list_all inGrid (moves (state g))"
  using reachable_boardInvariant boardInvariantD(4) by blast

lemma reachable_seatsWellFormed:
  "[] \<notin> ids \<Longrightarrow> reachable ids g \<Longrightarrow> seatsWellFormed (state g)"
  using reachable_roundInvariant roundInvariantD(5) by blast

text \<open>The example rounds are rounds of the players \<open>a\<close> and \<open>b\<close>.\<close>

lemma reachable_roundInProgress: "reachable {''a'', ''b''} roundInProgress"
  by (simp add: roundInProgress_def roundWaitingToStart_def reachable.intros)

lemma reachable_roundAfterSixMoves: "reachable {''a'', ''b''} roundAfterSixMoves"
  by (simp add: roundAfterSixMoves_def reachable_roundInProgress reachable.intros)

section \<open>The board is the replay of the move log\<close>



section \<open>Accepted moves are placeable and keep gravity\<close>

lemma placeable_iff:
  assumes "boardShape b"
  shows "placeable b c r =
     (0 \<le> c \<and> c < 7 \<and> 0 \<le> r \<and> r < 6 \<and> b ! nat r ! nat c = ''_'' \<and>
      (r = 5 \<or> b ! nat (r + 1) ! nat c \<noteq> ''_''))"
  by (auto simp: placeable_def cellAt_shape [OF assms])

lemma placeable_checkValidBoardPosition:
  "boardShape (board g) \<Longrightarrow>
   checkValidBoardPosition g mv = placeable (board g) (col (move mv)) (row (move mv))"
  by (simp only: placeable_iff checkValidBoardPosition_iff)

text \<open>
  C8. In every round that the operations produce, ApplyMove accepts a move only if its
  position is placeable (column in 0..6, row in 0..5, the target cell empty, the row the
  floor or the cell below not empty); the board obeys gravity, and so does the board after
  the call.
\<close>

theorem accepted_moves_keep_gravity:
  assumes "reachable ids g"
  shows "(fst (applyMove g mv) = None \<longrightarrow>
            placeable (board g) (col (move mv)) (row (move mv))) \<and>
         gravity (board g) \<and> gravity (board (snd (applyMove g mv)))"
proof -
  have inv: "boardInvariant g" using assms by (rule reachable_boardInvariant)
  have "placeable (board g) (col (move mv)) (row (move mv))" if "fst (applyMove g mv) = None"
  proof -
    have "checkValidBoardPosition g mv"
      using that unfolding applyMove_throws by (rule checkValidMove_accepted)
    then show ?thesis
      by (simp only: placeable_checkValidBoardPosition [OF boardInvariantD(1) [OF inv]])
  qed
  moreover have "gravity (board g)" using inv by (rule boardInvariantD)
  moreover have "gravity (board (snd (applyMove g mv)))"
    using boardInvariant_applyMove [OF inv] by (rule boardInvariantD)
  ultimately show ?thesis by simp
qed

theorem accepted_moves_keep_gravity_witness:
  "reachable {''a'', ''b''} roundAfterSixMoves \<and>
   fst (applyMove roundAfterSixMoves (moveAt ''a'' Red 0 3)) = None \<and>
   placeable (board roundAfterSixMoves) 0 3 \<and>
   gravity (board roundAfterSixMoves) \<and>
   gravity (board (snd (applyMove roundAfterSixMoves (moveAt ''a'' Red 0 3))))"
proof -
  have a: "fst (applyMove roundAfterSixMoves (moveAt ''a'' Red 0 3)) = None" by code_simp
  have m: "col (move (moveAt ''a'' Red 0 3)) = 0" "row (move (moveAt ''a'' Red 0 3)) = 3"
    by (simp_all add: moveAt_def)
  show ?thesis
    using accepted_moves_keep_gravity [OF reachable_roundAfterSixMoves, of "moveAt ''a'' Red 0 3"]
      reachable_roundAfterSixMoves a
    by (simp add: m)
qed


section \<open>A win is reported before a tie\<close>

lemma boardFullCheck_iff:
  "boardFullCheck g =
     ((\<exists>r<6. \<exists>c<7. board g ! r ! c \<noteq> ''_'') \<and> length (moves (state g)) = 42)"
  by (simp add: boardFullCheck_def list_ex_iff Bex_def)

lemma pieceOf_inject: "pieceOf c = pieceOf c' \<Longrightarrow> c = c'"
  by (cases c; cases c') (simp_all add: pieceOf_def)

lemma lineAt_setCell_other:
  assumes shape: "boardShape b" and grid: "0 \<le> r0" "r0 < 6" "0 \<le> c0" "c0 < 7"
    and pv: "p \<noteq> v"
    and line: "lineAt (setCell b r0 c0 v) r c dr dc p"
  shows "lineAt b r c dr dc p"
proof -
  have "cellAt b x y = Some p" if "cellAt (setCell b r0 c0 v) x y = Some p" for x y
    using that pv by (simp add: cellAt_setCell [OF shape grid] split: if_splits)
  then show ?thesis using line by (simp add: lineAt_iff)
qed

text \<open>A line of four that a write completes holds the piece that was written.\<close>

lemma fourInARow_setCell:
  assumes shape: "boardShape b" and grid: "0 \<le> r0" "r0 < 6" "0 \<le> c0" "c0 < 7"
    and new: "fourInARow (setCell b r0 c0 v) p" and old: "\<not> fourInARow b p"
  shows "p = v"
proof (rule ccontr)
  assume pv: "p \<noteq> v"
  from new obtain r c where rc: "r < 6" "c < 7" and
    l: "lineAt (setCell b r0 c0 v) (int r) (int c) 0 1 p \<or>
        lineAt (setCell b r0 c0 v) (int r) (int c) 1 0 p \<or>
        lineAt (setCell b r0 c0 v) (int r) (int c) 1 1 p \<or>
        lineAt (setCell b r0 c0 v) (int r) (int c) (- 1) 1 p"
    unfolding fourInARow_iff by blast
  then have "lineAt b (int r) (int c) 0 1 p \<or> lineAt b (int r) (int c) 1 0 p \<or>
        lineAt b (int r) (int c) 1 1 p \<or> lineAt b (int r) (int c) (- 1) 1 p"
    using lineAt_setCell_other [OF shape grid pv] by blast
  then have "fourInARow b p" using rc by (intro fourInARowI)
  then show False using old by simp
qed

lemma seatOf_gamePiece:
  "(if gp = Red then red s else yellow s) = seatOf s gp"
  by (cases gp) (simp_all add: seatOf_def)

lemma seatOf_moves: "seatOf (s\<lparr>moves := ms\<rparr>) c = seatOf s c"
  by (cases c) (simp_all add: seatOf_def)

text \<open>
  C3. Let ApplyMove accept a move in a round that the operations have produced for players
  with non-empty identities, and let \<open>g'\<close> be the round after the call. If the board holds
  a line of four discs of a colour (horizontal, vertical or diagonal), the round is over and
  its winner is the occupant of
  the seat of that colour, which is taken: this is so whatever the length of the move log,
  so also when the move fills the board. If the board holds no line of four and the move log
  has 42 moves, the round is over without a winner. If it holds none and the log is shorter,
  the round is still in progress.
\<close>

theorem win_before_tie:
  assumes ids: "[] \<notin> ids" and reach: "reachable ids g"
    and accepted: "applyMove g mv = (None, g')"
  shows "(fourInARow (board g') (pieceOf c) \<longrightarrow>
            status (state g') = OVER \<and> winner (state g') = seatOf (state g') c \<and>
            winner (state g') \<noteq> None) \<and>
         (\<not> fourInARow (board g') ''R'' \<and> \<not> fourInARow (board g') ''Y'' \<and>
            length (moves (state g')) = 42 \<longrightarrow>
            status (state g') = OVER \<and> winner (state g') = None) \<and>
         (\<not> fourInARow (board g') ''R'' \<and> \<not> fourInARow (board g') ''Y'' \<and>
            length (moves (state g')) \<noteq> 42 \<longrightarrow>
            status (state g') = IN_PROGRESS)"
proof -
  have inv: "roundInvariant g" using ids reach by (rule reachable_roundInvariant)
  have valid: "checkValidMove g mv = None"
    using accepted applyMove_throws [of g mv] by simp
  let ?m = "move mv"
  let ?v = "pieceOf (gamePiece ?m)"
  let ?b' = "setCell (board g) (row ?m) (col ?m) ?v"
  let ?g1 = "g\<lparr>state := (state g)\<lparr>moves := moves (state g) @ [?m]\<rparr>, board := ?b'\<rparr>"
  have g': "g' = determineWinner ?g1 ?m"
    using applyMove_accepted_result [OF roundInvariant_board [OF inv] valid] accepted by simp
  have st: "status (state g) = IN_PROGRESS" using valid by (rule checkValidMove_accepted)
  have pos: "0 \<le> row ?m" "row ?m < 6" "0 \<le> col ?m" "col ?m < 7"
    using checkValidMove_accepted(4) [OF valid] by (simp_all add: checkValidBoardPosition_iff)
  have shape: "boardShape (board g)" using inv by (rule roundInvariantD)
  have shape': "boardShape ?b'" using shape by (rule setCell_shape)
  have board': "board g' = ?b'" by (simp add: g' determineWinner_rest)
  have win: "winDetected ?b' = (fourInARow ?b' ''R'' \<or> fourInARow ?b' ''Y'')"
    using shape' by (rule winDetected_colours)
  have nowin: "\<not> fourInARow (board g) p" if "p = ''R'' \<or> p = ''Y''" for p
    using roundInvariantD(7) [OF inv] st that winDetected_colours [OF shape] by auto
  have full: "red (state g) \<noteq> None \<and> yellow (state g) \<noteq> None"
    using roundInvariantD(6) [OF inv] st by simp
  have s': "state g' =
     (if winDetected ?b'
        then (state g)\<lparr>moves := moves (state g) @ [?m], status := OVER,
               winner := seatOf (state g) (gamePiece ?m)\<rparr>
      else if length (moves (state g) @ [?m]) = 42
        then (state g)\<lparr>moves := moves (state g) @ [?m], status := OVER, winner := None\<rparr>
      else (state g)\<lparr>moves := moves (state g) @ [?m]\<rparr>)"
  proof -
    have "?b' ! nat (row ?m) ! nat (col ?m) = ?v"
      using setCell_nth [OF shape pos, of "nat (row ?m)" "nat (col ?m)" ?v] pos by simp
    then have "nat (row ?m) < 6 \<and> (nat (col ?m) < 7 \<and>
        ?b' ! nat (row ?m) ! nat (col ?m) \<noteq> ''_'')"
      using pos pieceOf_not_empty [of "gamePiece ?m"] by (simp add: nat_less_iff)
    then have "\<exists>r<6. \<exists>c<7. ?b' ! r ! c \<noteq> ''_''"
      by blast
    then have "boardFullCheck ?g1 = (length (moves (state g) @ [?m]) = 42)"
      by (simp add: boardFullCheck_iff)
    then show ?thesis
      by (simp add: g' determineWinner_state seatOf_gamePiece seatOf_moves)
  qed
  have first: "status (state g') = OVER \<and> winner (state g') = seatOf (state g') c \<and>
            winner (state g') \<noteq> None" if four: "fourInARow (board g') (pieceOf c)"
  proof -
    have "pieceOf c = ''R'' \<or> pieceOf c = ''Y''" by (rule pieceOf_cases)
    then have "\<not> fourInARow (board g) (pieceOf c)" by (rule nowin)
    then have "pieceOf c = ?v"
      using fourInARow_setCell [OF shape pos] four board' by simp
    then have c: "c = gamePiece ?m" by (rule pieceOf_inject)
    have "winDetected ?b'"
      using four board' pieceOf_cases [of c] win by auto
    then show ?thesis
      using full by (cases c) (simp_all add: s' c seatOf_def)
  qed
  have rest: "\<not> winDetected ?b'"
    if "\<not> fourInARow (board g') ''R'' \<and> \<not> fourInARow (board g') ''Y''"
    using that win board' by simp
  have log: "moves (state g') = moves (state g) @ [?m]" by (simp add: s')
  have second: "status (state g') = OVER \<and> winner (state g') = None"
    if "\<not> fourInARow (board g') ''R'' \<and> \<not> fourInARow (board g') ''Y'' \<and>
        length (moves (state g')) = 42"
    using that rest log by (simp add: s')
  have third: "status (state g') = IN_PROGRESS"
    if "\<not> fourInARow (board g') ''R'' \<and> \<not> fourInARow (board g') ''Y'' \<and>
        length (moves (state g')) \<noteq> 42"
    using that rest log st by (simp add: s')
  show ?thesis
    using first second third by blast
qed

lemma reachable_applyMoves: "reachable ids g \<Longrightarrow> reachable ids (applyMoves g mvs)"
  unfolding applyMoves_def
  by (induction mvs arbitrary: g) (simp_all add: reach_applyMove)

lemma roundBeforeLastMove_run: "roundBeforeLastMove = applyMoves roundInProgress movesToFullBoard"
  by code_simp

lemma reachable_roundBeforeLastMove: "reachable {''a'', ''b''} roundBeforeLastMove"
  unfolding roundBeforeLastMove_run using reachable_roundInProgress by (rule reachable_applyMoves)

lemma tie_example:
  "fst (applyMove roundBeforeLastMove (moveAt ''b'' Yellow 6 0)) = None"
  "length (moves (state (snd (applyMove roundBeforeLastMove (moveAt ''b'' Yellow 6 0))))) = 42"
  "\<not> fourInARow (board (snd (applyMove roundBeforeLastMove (moveAt ''b'' Yellow 6 0)))) ''R''"
  "\<not> fourInARow (board (snd (applyMove roundBeforeLastMove (moveAt ''b'' Yellow 6 0)))) ''Y''"
  by code_simp+

text \<open>
  Both results occur: a fourth red disc on the floor ends the round of six moves with \<open>a\<close>
  as winner, and the 42nd move of the game that fills the board ends it without a winner.
\<close>

theorem win_before_tie_witness:
  "reachable {''a'', ''b''} roundAfterSixMoves \<and>
   fst (applyMove roundAfterSixMoves (moveAt ''a'' Red 3 5)) = None \<and>
   fourInARow (board (snd (applyMove roundAfterSixMoves (moveAt ''a'' Red 3 5)))) ''R'' \<and>
   status (state (snd (applyMove roundAfterSixMoves (moveAt ''a'' Red 3 5)))) = OVER \<and>
   winner (state (snd (applyMove roundAfterSixMoves (moveAt ''a'' Red 3 5)))) = Some ''a'' \<and>
   reachable {''a'', ''b''} roundBeforeLastMove \<and>
   fst (applyMove roundBeforeLastMove (moveAt ''b'' Yellow 6 0)) = None \<and>
   length (moves (state (snd (applyMove roundBeforeLastMove (moveAt ''b'' Yellow 6 0))))) = 42 \<and>
   status (state (snd (applyMove roundBeforeLastMove (moveAt ''b'' Yellow 6 0)))) = OVER \<and>
   winner (state (snd (applyMove roundBeforeLastMove (moveAt ''b'' Yellow 6 0)))) = None"
proof -
  let ?w = "applyMove roundAfterSixMoves (moveAt ''a'' Red 3 5)"
  let ?t = "applyMove roundBeforeLastMove (moveAt ''b'' Yellow 6 0)"
  have w: "fst ?w = None" "fourInARow (board (snd ?w)) (pieceOf Red)"
    "seatOf (state (snd ?w)) Red = Some ''a''" "pieceOf Red = ''R''"
    by code_simp+
  have aw: "?w = (None, snd ?w)" using w(1) by (simp add: prod_eq_iff)
  have t: "fst ?t = None" "length (moves (state (snd ?t))) = 42"
    "\<not> fourInARow (board (snd ?t)) ''R''" "\<not> fourInARow (board (snd ?t)) ''Y''"
    by (rule tie_example)+
  have at: "?t = (None, snd ?t)" using t(1) by (simp add: prod_eq_iff)
  have ids: "[] \<notin> {''a'', ''b''}" by simp
  show ?thesis
    using win_before_tie [OF ids reachable_roundAfterSixMoves aw, of Red]
      win_before_tie [OF ids reachable_roundBeforeLastMove at]
      reachable_roundAfterSixMoves reachable_roundBeforeLastMove w t
    by simp
qed

section \<open>The piece of a move is not checked\<close>

lemma isTurn_iff:
  "isTurn g mv =
     (seatOf (state g)
        (if even (length (moves (state g))) then firstPlayer (state g)
         else getOtherPlayerColor (firstPlayer (state g)))
      = Some (playerID mv))"
  by (cases "firstPlayer (state g)")
     (auto simp: isTurn_def seatOf_def getOtherPlayerColor_def Let_def even_iff_mod_2_eq_zero)

lemma reachable_roundAfterFourMoves: "reachable {''a'', ''b''} roundAfterFourMoves"
  by (simp add: roundAfterFourMoves_def reachable_roundInProgress reachable.intros)

lemma applyMove_ignores_gamePiece_general:
  assumes reach: "reachable ids g" and st: "status (state g) = IN_PROGRESS"
    and turn: "seatOf (state g)
        (if even (length (moves (state g))) then firstPlayer (state g)
         else getOtherPlayerColor (firstPlayer (state g))) = Some (playerID mv)"
    and place: "placeable (board g) (col (move mv)) (row (move mv))"
  shows "fst (applyMove g (mv\<lparr>move := (move mv)\<lparr>gamePiece := gp\<rparr>\<rparr>)) = None \<and>
     moves (state (snd (applyMove g (mv\<lparr>move := (move mv)\<lparr>gamePiece := gp\<rparr>\<rparr>))))
       = moves (state g) @ [(move mv)\<lparr>gamePiece := gp\<rparr>] \<and>
     cellAt (board g) (row (move mv)) (col (move mv)) = Some ''_'' \<and>
     cellAt (board (snd (applyMove g (mv\<lparr>move := (move mv)\<lparr>gamePiece := gp\<rparr>\<rparr>))))
       (row (move mv)) (col (move mv)) = Some (case gp of Red \<Rightarrow> ''R'' | Yellow \<Rightarrow> ''Y'') \<and>
     (winDetected (board (snd (applyMove g (mv\<lparr>move := (move mv)\<lparr>gamePiece := gp\<rparr>\<rparr>)))) \<longrightarrow>
        status (state (snd (applyMove g (mv\<lparr>move := (move mv)\<lparr>gamePiece := gp\<rparr>\<rparr>)))) = OVER \<and>
        winner (state (snd (applyMove g (mv\<lparr>move := (move mv)\<lparr>gamePiece := gp\<rparr>\<rparr>))))
          = (case gp of Red \<Rightarrow> red (state g) | Yellow \<Rightarrow> yellow (state g)))"
proof -
  let ?mv = "mv\<lparr>move := (move mv)\<lparr>gamePiece := gp\<rparr>\<rparr>"
  let ?m = "move ?mv"
  have inv: "boardInvariant g" using reach by (rule reachable_boardInvariant)
  have shape: "boardShape (board g)" using inv by (rule boardInvariantD)
  have seated: "red (state g) = Some (playerID mv) \<or> yellow (state g) = Some (playerID mv)"
    using turn by (auto simp: seatOf_def split: ConnectFourColor.splits if_splits)
  have "isTurn g ?mv" using turn by (simp add: isTurn_iff)
  moreover have "checkValidBoardPosition g ?mv"
    using place by (simp add: placeable_checkValidBoardPosition [OF shape])
  ultimately have valid: "checkValidMove g ?mv = None"
    using st seated by (simp add: checkValidMove_eq)
  let ?b' = "setCell (board g) (row (move mv)) (col (move mv)) (pieceOf gp)"
  let ?g1 = "g\<lparr>state := (state g)\<lparr>moves := moves (state g) @ [?m]\<rparr>, board := ?b'\<rparr>"
  have g': "snd (applyMove g ?mv) = determineWinner ?g1 ?m"
    using applyMove_accepted_result [OF inv valid] by simp
  have pos: "0 \<le> row (move mv)" "row (move mv) < 6" "0 \<le> col (move mv)" "col (move mv) < 7"
    using place by (simp_all add: placeable_iff [OF shape])
  have old: "cellAt (board g) (row (move mv)) (col (move mv)) = Some ''_''"
    using place by (simp add: placeable_def)
  have piece: "pieceOf gp = (case gp of Red \<Rightarrow> ''R'' | Yellow \<Rightarrow> ''Y'')"
    by (cases gp) (simp_all add: pieceOf_def)
  have cell: "cellAt ?b' (row (move mv)) (col (move mv))
      = Some (case gp of Red \<Rightarrow> ''R'' | Yellow \<Rightarrow> ''Y'')"
    by (simp add: cellAt_setCell [OF shape pos] piece)
  show ?thesis
    using valid cell old g'
    by (cases gp)
       (simp_all add: applyMove_throws determineWinner_rest determineWinner_state)
qed

text \<open>
  C10. In a round in progress, a move whose player holds the seat of the active colour and
  whose position is placeable is accepted whatever its \<open>gamePiece\<close> is. The move is
  appended to the log with the \<open>gamePiece\<close> it came with; the cell at its position, which
  was empty, holds \<open>R\<close> afterwards when the \<open>gamePiece\<close> is Red and \<open>Y\<close> when it is Yellow;
  and when the scans find a line of four, the winner is the occupant of Red when the
  \<open>gamePiece\<close> is Red and the occupant of Yellow when it is Yellow. So there is a round in
  which the player who holds Red, and not Yellow, has a move with the \<open>gamePiece\<close> Yellow
  accepted: it puts the disc \<open>Y\<close> on the board and wins the round for the player who holds
  Yellow.
\<close>

theorem gamePiece_is_not_validated:
  "(reachable ids g \<and> status (state g) = IN_PROGRESS \<and>
    seatOf (state g)
      (if even (length (moves (state g))) then firstPlayer (state g)
       else getOtherPlayerColor (firstPlayer (state g))) = Some (playerID mv) \<and>
    placeable (board g) (col (move mv)) (row (move mv)) \<longrightarrow>
    (\<forall>gp.
       fst (applyMove g (mv\<lparr>move := (move mv)\<lparr>gamePiece := gp\<rparr>\<rparr>)) = None \<and>
       moves (state (snd (applyMove g (mv\<lparr>move := (move mv)\<lparr>gamePiece := gp\<rparr>\<rparr>))))
         = moves (state g) @ [(move mv)\<lparr>gamePiece := gp\<rparr>] \<and>
       cellAt (board g) (row (move mv)) (col (move mv)) = Some ''_'' \<and>
       cellAt (board (snd (applyMove g (mv\<lparr>move := (move mv)\<lparr>gamePiece := gp\<rparr>\<rparr>))))
         (row (move mv)) (col (move mv))
         = Some (case gp of Red \<Rightarrow> ''R'' | Yellow \<Rightarrow> ''Y'') \<and>
       (winDetected (board (snd (applyMove g (mv\<lparr>move := (move mv)\<lparr>gamePiece := gp\<rparr>\<rparr>))))
          \<longrightarrow>
        status (state (snd (applyMove g (mv\<lparr>move := (move mv)\<lparr>gamePiece := gp\<rparr>\<rparr>))))
          = OVER \<and>
        winner (state (snd (applyMove g (mv\<lparr>move := (move mv)\<lparr>gamePiece := gp\<rparr>\<rparr>))))
          = (case gp of Red \<Rightarrow> red (state g) | Yellow \<Rightarrow> yellow (state g))))) \<and>
   (\<exists>g0 mv0. reachable {''a'', ''b''} g0 \<and> red (state g0) = Some (playerID mv0) \<and>
      yellow (state g0) \<noteq> Some (playerID mv0) \<and> yellow (state g0) \<noteq> None \<and>
      gamePiece (move mv0) = Yellow \<and>
      fst (applyMove g0 mv0) = None \<and>
      cellAt (board (snd (applyMove g0 mv0))) (row (move mv0)) (col (move mv0))
        = Some ''Y'' \<and>
      status (state (snd (applyMove g0 mv0))) = OVER \<and>
      winner (state (snd (applyMove g0 mv0))) = yellow (state g0))"
proof -
  let ?g = roundAfterFourMoves and ?mv = "moveAt ''a'' Yellow 3 5"
  have "red (state ?g) = Some (playerID ?mv)"
    "yellow (state ?g) \<noteq> Some (playerID ?mv)" "yellow (state ?g) \<noteq> None"
    "gamePiece (move ?mv) = Yellow"
    "fst (applyMove ?g ?mv) = None"
    "cellAt (board (snd (applyMove ?g ?mv))) (row (move ?mv)) (col (move ?mv)) = Some ''Y''"
    "status (state (snd (applyMove ?g ?mv))) = OVER"
    "winner (state (snd (applyMove ?g ?mv))) = yellow (state ?g)"
    by code_simp+
  with reachable_roundAfterFourMoves
  have ex: "\<exists>g0 mv0. reachable {''a'', ''b''} g0 \<and> red (state g0) = Some (playerID mv0) \<and>
      yellow (state g0) \<noteq> Some (playerID mv0) \<and> yellow (state g0) \<noteq> None \<and>
      gamePiece (move mv0) = Yellow \<and>
      fst (applyMove g0 mv0) = None \<and>
      cellAt (board (snd (applyMove g0 mv0))) (row (move mv0)) (col (move mv0))
        = Some ''Y'' \<and>
      status (state (snd (applyMove g0 mv0))) = OVER \<and>
      winner (state (snd (applyMove g0 mv0))) = yellow (state g0)"
    by (intro exI [of _ ?g] exI [of _ ?mv] conjI)
  show ?thesis
  proof (rule conjI [OF _ ex], rule impI, rule allI)
    fix gp
    assume a: "reachable ids g \<and> status (state g) = IN_PROGRESS \<and>
      seatOf (state g)
        (if even (length (moves (state g))) then firstPlayer (state g)
         else getOtherPlayerColor (firstPlayer (state g))) = Some (playerID mv) \<and>
      placeable (board g) (col (move mv)) (row (move mv))"
    show "fst (applyMove g (mv\<lparr>move := (move mv)\<lparr>gamePiece := gp\<rparr>\<rparr>)) = None \<and>
       moves (state (snd (applyMove g (mv\<lparr>move := (move mv)\<lparr>gamePiece := gp\<rparr>\<rparr>))))
         = moves (state g) @ [(move mv)\<lparr>gamePiece := gp\<rparr>] \<and>
       cellAt (board g) (row (move mv)) (col (move mv)) = Some ''_'' \<and>
       cellAt (board (snd (applyMove g (mv\<lparr>move := (move mv)\<lparr>gamePiece := gp\<rparr>\<rparr>))))
         (row (move mv)) (col (move mv))
         = Some (case gp of Red \<Rightarrow> ''R'' | Yellow \<Rightarrow> ''Y'') \<and>
       (winDetected (board (snd (applyMove g (mv\<lparr>move := (move mv)\<lparr>gamePiece := gp\<rparr>\<rparr>))))
          \<longrightarrow>
        status (state (snd (applyMove g (mv\<lparr>move := (move mv)\<lparr>gamePiece := gp\<rparr>\<rparr>))))
          = OVER \<and>
        winner (state (snd (applyMove g (mv\<lparr>move := (move mv)\<lparr>gamePiece := gp\<rparr>\<rparr>))))
          = (case gp of Red \<Rightarrow> red (state g) | Yellow \<Rightarrow> yellow (state g)))"
      by (rule applyMove_ignores_gamePiece_general
          [OF a [THEN conjunct1] a [THEN conjunct2, THEN conjunct1]
              a [THEN conjunct2, THEN conjunct2, THEN conjunct1]
              a [THEN conjunct2, THEN conjunct2, THEN conjunct2]])
  qed
qed

text \<open>
  In the round of \<open>a\<close> (Red) and \<open>b\<close> (Yellow) after four moves it is the turn of \<open>a\<close>, and
  the floor cell of column 3 is free. The move of \<open>a\<close> there is accepted with either
  \<open>gamePiece\<close>. With Yellow it is logged as a yellow move, the cell holds \<open>Y\<close>, and the
  round is won by \<open>b\<close>; with Red it is logged as a red move, the cell holds \<open>R\<close>, and the
  round goes on.
\<close>

theorem gamePiece_is_not_validated_witness:
  "reachable {''a'', ''b''} roundAfterFourMoves \<and>
   status (state roundAfterFourMoves) = IN_PROGRESS \<and>
   red (state roundAfterFourMoves) = Some ''a'' \<and>
   yellow (state roundAfterFourMoves) = Some ''b'' \<and>
   placeable (board roundAfterFourMoves) 3 5 \<and>
   cellAt (board roundAfterFourMoves) 5 3 = Some ''_'' \<and>
   fst (applyMove roundAfterFourMoves (moveAt ''a'' Yellow 3 5)) = None \<and>
   last (moves (state (snd (applyMove roundAfterFourMoves (moveAt ''a'' Yellow 3 5)))))
     = \<lparr> gamePiece = Yellow, col = 3, row = 5 \<rparr> \<and>
   cellAt (board (snd (applyMove roundAfterFourMoves (moveAt ''a'' Yellow 3 5)))) 5 3
     = Some ''Y'' \<and>
   status (state (snd (applyMove roundAfterFourMoves (moveAt ''a'' Yellow 3 5)))) = OVER \<and>
   winner (state (snd (applyMove roundAfterFourMoves (moveAt ''a'' Yellow 3 5)))) = Some ''b'' \<and>
   fst (applyMove roundAfterFourMoves (moveAt ''a'' Red 3 5)) = None \<and>
   last (moves (state (snd (applyMove roundAfterFourMoves (moveAt ''a'' Red 3 5)))))
     = \<lparr> gamePiece = Red, col = 3, row = 5 \<rparr> \<and>
   cellAt (board (snd (applyMove roundAfterFourMoves (moveAt ''a'' Red 3 5)))) 5 3
     = Some ''R'' \<and>
   status (state (snd (applyMove roundAfterFourMoves (moveAt ''a'' Red 3 5)))) = IN_PROGRESS"
proof -
  let ?g = roundAfterFourMoves and ?mv = "moveAt ''a'' Red 3 5"
  have h: "status (state ?g) = IN_PROGRESS"
    "seatOf (state ?g)
      (if even (length (moves (state ?g))) then firstPlayer (state ?g)
       else getOtherPlayerColor (firstPlayer (state ?g))) = Some (playerID ?mv)"
    "placeable (board ?g) (col (move ?mv)) (row (move ?mv))"
    by code_simp+
  have e: "?mv\<lparr>move := (move ?mv)\<lparr>gamePiece := Yellow\<rparr>\<rparr> = moveAt ''a'' Yellow 3 5"
    "?mv\<lparr>move := (move ?mv)\<lparr>gamePiece := Red\<rparr>\<rparr> = moveAt ''a'' Red 3 5"
    "(move ?mv)\<lparr>gamePiece := Yellow\<rparr> = \<lparr> gamePiece = Yellow, col = 3, row = 5 \<rparr>"
    "(move ?mv)\<lparr>gamePiece := Red\<rparr> = \<lparr> gamePiece = Red, col = 3, row = 5 \<rparr>"
    "col (move ?mv) = 3" "row (move ?mv) = 5"
    "?mv\<lparr>move := \<lparr> gamePiece = Yellow, col = 3, row = 5 \<rparr>\<rparr> = moveAt ''a'' Yellow 3 5"
    "?mv\<lparr>move := \<lparr> gamePiece = Red, col = 3, row = 5 \<rparr>\<rparr> = moveAt ''a'' Red 3 5"
    by (simp_all add: moveAt_def)
  have v: "red (state ?g) = Some ''a''" "yellow (state ?g) = Some ''b''"
    "winDetected (board (snd (applyMove ?g (moveAt ''a'' Yellow 3 5))))"
    "status (state (snd (applyMove ?g (moveAt ''a'' Red 3 5)))) = IN_PROGRESS"
    by code_simp+
  have ante: "reachable {''a'', ''b''} ?g \<and> status (state ?g) = IN_PROGRESS \<and>
    seatOf (state ?g)
      (if even (length (moves (state ?g))) then firstPlayer (state ?g)
       else getOtherPlayerColor (firstPlayer (state ?g))) = Some (playerID ?mv) \<and>
    placeable (board ?g) (col (move ?mv)) (row (move ?mv))"
    using reachable_roundAfterFourMoves h by (intro conjI)
  note all = gamePiece_is_not_validated [of "{''a'', ''b''}" ?g ?mv, THEN conjunct1, THEN mp,
    OF ante]
  have y: "fst (applyMove ?g (moveAt ''a'' Yellow 3 5)) = None \<and>
     moves (state (snd (applyMove ?g (moveAt ''a'' Yellow 3 5))))
       = moves (state ?g) @ [\<lparr> gamePiece = Yellow, col = 3, row = 5 \<rparr>] \<and>
     cellAt (board ?g) 5 3 = Some ''_'' \<and>
     cellAt (board (snd (applyMove ?g (moveAt ''a'' Yellow 3 5)))) 5 3
       = Some (case Yellow of Red \<Rightarrow> ''R'' | Yellow \<Rightarrow> ''Y'') \<and>
     (winDetected (board (snd (applyMove ?g (moveAt ''a'' Yellow 3 5)))) \<longrightarrow>
        status (state (snd (applyMove ?g (moveAt ''a'' Yellow 3 5)))) = OVER \<and>
        winner (state (snd (applyMove ?g (moveAt ''a'' Yellow 3 5))))
          = (case Yellow of Red \<Rightarrow> red (state ?g) | Yellow \<Rightarrow> yellow (state ?g)))"
    using all [THEN spec, of Yellow] unfolding e .
  have r: "fst (applyMove ?g (moveAt ''a'' Red 3 5)) = None \<and>
     moves (state (snd (applyMove ?g (moveAt ''a'' Red 3 5))))
       = moves (state ?g) @ [\<lparr> gamePiece = Red, col = 3, row = 5 \<rparr>] \<and>
     cellAt (board ?g) 5 3 = Some ''_'' \<and>
     cellAt (board (snd (applyMove ?g (moveAt ''a'' Red 3 5)))) 5 3
       = Some (case Red of Red \<Rightarrow> ''R'' | Yellow \<Rightarrow> ''Y'') \<and>
     (winDetected (board (snd (applyMove ?g (moveAt ''a'' Red 3 5)))) \<longrightarrow>
        status (state (snd (applyMove ?g (moveAt ''a'' Red 3 5)))) = OVER \<and>
        winner (state (snd (applyMove ?g (moveAt ''a'' Red 3 5))))
          = (case Red of Red \<Rightarrow> red (state ?g) | Yellow \<Rightarrow> yellow (state ?g)))"
    using all [THEN spec, of Red] unfolding e .
  show ?thesis
    using reachable_roundAfterFourMoves h(1) h(3) v y r e(5,6) by simp
qed

end
